theory Spec2Isabelle
  imports Main
begin

section \<open>JavaScript strings and numbers\<close>

text \<open>
  A JavaScript string is a sequence of UTF-16 code units. It is modelled as a
  \<^typ>\<open>string\<close>, so the model covers the strings whose code units are below 256.
  Numbers are modelled as integers: the episode, season and year values of the program are
  integral, and a double agrees with the integer it holds up to \<open>2 ^ 53\<close>.
\<close>

text \<open>\<open>WhiteSpace\<close> and \<open>LineTerminator\<close>, the class of \<open>\s\<close> and of \<open>trim\<close>:
  TAB, LF, VT, FF, CR, SP and NBSP among the code units below 256.\<close>

definition isWhiteSpace :: "char \<Rightarrow> bool" where
  "isWhiteSpace c = (c \<in> set [CHR 0x09, CHR 0x0A, CHR 0x0B, CHR 0x0C, CHR 0x0D, CHR 0x20, CHR 0xA0])"

text \<open>The class \<open>\d\<close>.\<close>

definition isDigit :: "char \<Rightarrow> bool" where
  "isDigit c = (c \<in> set ''0123456789'')"

text \<open>\<open>String.prototype.startsWith\<close> and \<open>endsWith\<close>.\<close>

definition startsWith :: "string \<Rightarrow> string \<Rightarrow> bool" where
  "startsWith s p = (take (length p) s = p)"

definition endsWith :: "string \<Rightarrow> string \<Rightarrow> bool" where
  "endsWith s p = (length p \<le> length s \<and> drop (length s - length p) s = p)"

text \<open>The first occurrence of a pattern: the text before it and the text after it.\<close>

fun findFirst :: "string \<Rightarrow> string \<Rightarrow> (string \<times> string) option" where
  "findFirst pat [] = (if pat = [] then Some ([], []) else None)"
| "findFirst pat (c # cs) =
     (if startsWith (c # cs) pat then Some ([], drop (length pat) (c # cs))
      else (case findFirst pat cs of
              None \<Rightarrow> None
            | Some (pre, post) \<Rightarrow> Some (c # pre, post)))"

text \<open>
  \<open>GetSubstitution\<close> for a string pattern, which has no capture groups: in the replacement
  text \<open>$$\<close> stands for a dollar sign, \<open>$&\<close> for the matched text, \<open>$`\<close> for the text
  before the match and \<open>$'\<close> for the text after it; every other character, a dollar sign
  before a digit or \<open><\<close> included, stands for itself.
\<close>

fun getSubstitution :: "string \<Rightarrow> string \<Rightarrow> string \<Rightarrow> string \<Rightarrow> string" where
  "getSubstitution matched preceding following [] = []"
| "getSubstitution matched preceding following [c] = [c]"
| "getSubstitution matched preceding following (c # d # r) =
     (if c = CHR ''$'' then
        (if d = CHR ''$'' then CHR ''$'' # getSubstitution matched preceding following r
         else if d = CHR ''&'' then matched @ getSubstitution matched preceding following r
         else if d = CHR 0x60 then preceding @ getSubstitution matched preceding following r
         else if d = CHR 0x27 then following @ getSubstitution matched preceding following r
         else c # getSubstitution matched preceding following (d # r))
      else c # getSubstitution matched preceding following (d # r))"

text \<open>\<open>s.replace(pat, rep)\<close> with a string pattern: only the first occurrence is replaced.\<close>

definition replace :: "string \<Rightarrow> string \<Rightarrow> string \<Rightarrow> string" where
  "replace s pat rep =
     (case findFirst pat s of
        None \<Rightarrow> s
      | Some (pre, post) \<Rightarrow> pre @ getSubstitution pat pre post rep @ post)"

text \<open>\<open>s.replace(/\s+/g, ' ')\<close>: every maximal run of white space becomes one space.\<close>

function collapseWhitespace :: "string \<Rightarrow> string" where
  "collapseWhitespace [] = []"
| "collapseWhitespace (c # cs) =
     (if isWhiteSpace c then CHR '' '' # collapseWhitespace (dropWhile isWhiteSpace cs)
      else c # collapseWhitespace cs)"
  by pat_completeness auto
termination
  by (relation "measure length") (auto simp: length_dropWhile_le less_Suc_eq_le)

definition trim :: "string \<Rightarrow> string" where
  "trim s = rev (dropWhile isWhiteSpace (rev (dropWhile isWhiteSpace s)))"

text \<open>\<open>s.split(d)\<close> for a separator of one character; the empty string gives one empty segment.\<close>

fun split :: "char \<Rightarrow> string \<Rightarrow> string list" where
  "split d [] = [[]]"
| "split d (c # cs) =
     (if c = d then [] # split d cs
      else (case split d cs of
              [] \<Rightarrow> [[c]]
            | p # ps \<Rightarrow> (c # p) # ps))"

text \<open>
  \<open>Number.prototype.toString\<close> on integers, \<open>padStart\<close> and \<open>parseInt\<close> on a run of digits.
  The numbers of the host are doubles, and the model has the integers among them. Every
  integer up to \<open>2^53\<close> is a double; for a longer run of digits \<open>parseInt\<close> gives the double
  nearest to its value, the even one of two that are equally near. \<open>toString\<close> prints every
  digit, which is what the host prints for an integer up to \<open>2^53\<close>; for a larger double the
  host prints the shortest digits that identify it, and from \<open>10^21\<close> on the exponent form.
  A run of more than 308 digits, longer than the name of a file can be, is \<open>Infinity\<close> in
  the host and has no counterpart here.
\<close>

definition digitChar :: "nat \<Rightarrow> char" where
  "digitChar d = ''0123456789'' ! d"

fun natToString :: "nat \<Rightarrow> string" where
  "natToString n = (if n < 10 then [digitChar n] else natToString (n div 10) @ [digitChar (n mod 10)])"

declare natToString.simps [simp del]

definition toString :: "int \<Rightarrow> string" where
  "toString i = (if i < 0 then CHR ''-'' # natToString (nat (- i)) else natToString (nat i))"

definition padStart :: "nat \<Rightarrow> char \<Rightarrow> string \<Rightarrow> string" where
  "padStart w c s = replicate (w - length s) c @ s"

definition digitValue :: "char \<Rightarrow> int" where
  "digitValue c = int (length (takeWhile (\<lambda>d. d \<noteq> c) ''0123456789''))"

fun excessBits :: "int \<Rightarrow> nat" where
  "excessBits n = (if n < 2 ^ 53 then 0 else Suc (excessBits (n div 2)))"

declare excessBits.simps [simp del]

definition roundToDouble :: "int \<Rightarrow> int" where
  "roundToDouble n =
     (let e = excessBits n; q = n div 2 ^ e; r = n mod 2 ^ e
      in if e = 0 then n
         else (if 2 ^ (e - 1) < r \<or> (r = 2 ^ (e - 1) \<and> odd q) then q + 1 else q) * 2 ^ e)"

definition parseInt :: "string \<Rightarrow> int" where
  "parseInt ds = roundToDouble (foldl (\<lambda>acc c. acc * 10 + digitValue c) 0 ds)"

section \<open>The subtitle suffix\<close>

text \<open>\<open>extractSubtitleSuffix\<close>: the part between the last two dots, or the empty string.\<close>

definition extractSubtitleSuffix :: "string \<Rightarrow> string" where
  "extractSubtitleSuffix filename =
     (let parts = split CHR ''.'' filename
      in if length parts \<ge> 3 then parts ! (length parts - 2) else [])"

text \<open>The key under which \<open>applyMetadata\<close> files a subtitle: \<open>item.suffix || 'default'\<close>.\<close>

definition groupKey :: "string \<Rightarrow> string" where
  "groupKey suffix = (if suffix = [] then ''default'' else suffix)"

section \<open>The data of the import page\<close>

record AniListTitle =
  romaji :: "string option"
  english :: "string option"
  native :: "string option"

record CoverImage =
  large :: "string option"
  medium :: "string option"

record AniListResponse =
  id' :: int
  title :: AniListTitle
  format :: "string option"
  episodes :: "int option"
  season_year :: "int option"
  cover_image :: "CoverImage option"

record ParsedFilename =
  anime_title :: string
  episode_number :: "int option"
  season :: "int option"
  group' :: "string option"
  resolution :: "string option"
  video_codec :: "string option"
  audio_codec :: "string option"

record AnimeInfo =
  title :: string
  title_romaji :: "string option"
  title_english :: "string option"
  episode :: "int option"
  season :: "int option"
  year :: "int option"
  format :: "string option"

record FileInfo =
  path :: string
  name :: string
  size' :: int
  file_type :: string
  is_video :: bool
  is_subtitle :: bool
  parsed :: "ParsedFilename option"
  metadata :: "AnimeInfo option"
  new_name :: "string option"

text \<open>The naming state of the page: the four templates and the two folder switches.\<close>

record NamingState =
  fileNameTemplate :: string
  subtitleSuffix :: string
  folderTemplate :: string
  seasonFolderTemplate :: string
  organizeBySeasons :: bool
  createAnimeFolders :: bool

datatype error = TypeError

text \<open>\<open>a || b\<close> on optional strings and numbers: an absent value, the empty string and
  zero are falsy.\<close>

definition orString :: "string option \<Rightarrow> string \<Rightarrow> string" where
  "orString a b = (case a of None \<Rightarrow> b | Some s \<Rightarrow> if s = [] then b else s)"

definition orNumber :: "int option \<Rightarrow> int \<Rightarrow> int" where
  "orNumber a b = (case a of None \<Rightarrow> b | Some n \<Rightarrow> if n = 0 then b else n)"

definition truthyNumber :: "int option \<Rightarrow> bool" where
  "truthyNumber a = (case a of None \<Rightarrow> False | Some n \<Rightarrow> n \<noteq> 0)"

definition truthyString :: "string option \<Rightarrow> bool" where
  "truthyString a = (case a of None \<Rightarrow> False | Some s \<Rightarrow> s \<noteq> [])"

section \<open>Sorting and object keys\<close>

text \<open>
  \<open>Array.prototype.sort\<close> with a comparator is stable; for a comparator that is a consistent
  total preorder its result is the stable insertion sort below. The comparator of the
  program is \<open>String.prototype.localeCompare\<close>, a function of the host: the functions of
  the program take it as a parameter, and the model of it follows further down.
\<close>

fun insertBy :: "('a \<Rightarrow> 'a \<Rightarrow> int) \<Rightarrow> 'a \<Rightarrow> 'a list \<Rightarrow> 'a list" where
  "insertBy c x [] = [x]"
| "insertBy c x (y # ys) = (if c x y \<le> 0 then x # y # ys else y # insertBy c x ys)"

definition sortBy :: "('a \<Rightarrow> 'a \<Rightarrow> int) \<Rightarrow> 'a list \<Rightarrow> 'a list" where
  "sortBy c xs = foldr (insertBy c) xs []"

text \<open>
  The comparison as the specification words it, total, case-sensitive and lexicographic:
  the first code unit that differs decides, and a prefix comes first. It is not the
  comparison of the program.
\<close>

fun specCompare :: "string \<Rightarrow> string \<Rightarrow> int" where
  "specCompare [] [] = 0"
| "specCompare [] (y # ys) = - 1"
| "specCompare (x # xs) [] = 1"
| "specCompare (x # xs) (y # ys) =
     (if of_char x < (of_char y :: nat) then - 1
      else if of_char y < (of_char x :: nat) then 1
      else specCompare xs ys)"

text \<open>
  An object is modelled by its own properties in the order of their creation.
  \<open>Object.keys\<close> lists the keys that are array indices first, in ascending numeric order,
  and then the other keys in the order of creation.
\<close>

definition isArrayIndex :: "string \<Rightarrow> bool" where
  "isArrayIndex k =
     (k \<noteq> [] \<and> list_all isDigit k \<and> natToString (nat (parseInt k)) = k \<and> parseInt k < 2 ^ 32 - 1)"

definition objectKeys :: "(string \<times> 'a) list \<Rightarrow> string list" where
  "objectKeys obj =
     (let ks = map fst obj
      in sort_key (\<lambda>k. nat (parseInt k)) (filter isArrayIndex ks) @ filter (\<lambda>k. \<not> isArrayIndex k) ks)"

text \<open>The properties that an object literal inherits from \<open>Object.prototype\<close>; each is
  truthy and none has a \<open>push\<close> method.\<close>

definition objectPrototypeKeys :: "string list" where
  "objectPrototypeKeys =
     [''constructor'', ''__defineGetter__'', ''__defineSetter__'', ''hasOwnProperty'',
      ''__lookupGetter__'', ''__lookupSetter__'', ''isPrototypeOf'', ''propertyIsEnumerable'',
      ''toString'', ''valueOf'', ''__proto__'', ''toLocaleString'']"

section \<open>Season and release group of a file\<close>

text \<open>\<open>name.match(/[Ss](\d+)/)\<close>: the digits of the leftmost match.\<close>

fun matchSeason :: "string \<Rightarrow> string option" where
  "matchSeason [] = None"
| "matchSeason (c # cs) =
     (if (c = CHR ''S'' \<or> c = CHR ''s'') \<and> takeWhile isDigit cs \<noteq> []
      then Some (takeWhile isDigit cs)
      else matchSeason cs)"

text \<open>\<open>name.match(/\[([^\]]+)\]/)\<close>: the text between the brackets of the leftmost match.\<close>

fun matchGroup :: "string \<Rightarrow> string option" where
  "matchGroup [] = None"
| "matchGroup (c # cs) =
     (if c = CHR ''['' \<and> takeWhile (\<lambda>x. x \<noteq> CHR '']'') cs \<noteq> []
         \<and> dropWhile (\<lambda>x. x \<noteq> CHR '']'') cs \<noteq> []
      then Some (takeWhile (\<lambda>x. x \<noteq> CHR '']'') cs)
      else matchGroup cs)"

text \<open>
  The block that sets \<open>groupName\<close> and \<open>seasonNumber\<close>, the same for a video and for a
  subtitle: the values of the parse result when the file has one, the matches in the file
  name otherwise. The resolution match of the video branch has an empty body.
\<close>

definition techInfo :: "FileInfo \<Rightarrow> string option \<times> int option" where
  "techInfo file =
     (case parsed file of
        Some p \<Rightarrow> (group' p, ParsedFilename.season p)
      | None \<Rightarrow> (matchGroup (name file), map_option parseInt (matchSeason (name file))))"

section \<open>Generating a name from the template\<close>

text \<open>The \<open>animeInfo\<close> object that \<open>applyMetadata\<close> builds for a file.\<close>

definition makeAnimeInfo :: "AniListResponse \<Rightarrow> nat \<Rightarrow> int option \<Rightarrow> AnimeInfo" where
  "makeAnimeInfo animeData episodeNumber seasonNumber =
     \<lparr> title = orString (romaji (AniListResponse.title animeData))
                 (orString (english (AniListResponse.title animeData))
                   (orString (native (AniListResponse.title animeData)) ''Unknown'')),
       title_romaji = romaji (AniListResponse.title animeData),
       title_english = english (AniListResponse.title animeData),
       episode = Some (int episodeNumber),
       season = Some (orNumber seasonNumber 1),
       year = season_year animeData,
       format = AniListResponse.format animeData \<rparr>"

text \<open>
  The replacements that both branches of \<open>applyMetadata\<close> apply to their template, in the
  order of the source, up to the white space clean-up.
\<close>

definition fillTemplate :: "string \<Rightarrow> AnimeInfo \<Rightarrow> nat \<Rightarrow> int option \<Rightarrow> string option \<Rightarrow> string" where
  "fillTemplate template animeInfo episodeNumber seasonNumber groupName =
     (let newName = template;
          newName = replace newName ''{title}'' (title animeInfo);
          newName = replace newName ''{title_romaji}'' (orString (title_romaji animeInfo) (title animeInfo));
          newName = replace newName ''{title_english}'' (orString (title_english animeInfo) (title animeInfo));
          newName = replace newName ''{episode}'' (padStart 2 CHR ''0'' (natToString episodeNumber));
          newName = replace newName ''{episode:02}'' (padStart 2 CHR ''0'' (natToString episodeNumber));
          newName = replace newName ''{episode:03}'' (padStart 3 CHR ''0'' (natToString episodeNumber));
          newName = (if truthyNumber seasonNumber
                     then replace newName ''{season}'' (toString (the seasonNumber))
                     else replace newName ''{season}'' ''1'');
          newName = (if truthyNumber (year animeInfo)
                     then replace newName ''{year}'' (toString (the (year animeInfo)))
                     else replace newName ''{year}'' []);
          newName = (if truthyString groupName
                     then replace newName ''{group}'' (the groupName)
                     else replace newName ''{group}'' [])
      in trim (collapseWhitespace newName))"

text \<open>The extension: put in place of \<open>{ext}\<close>, and appended unless the name ends with it.\<close>

definition addExtension :: "string \<Rightarrow> string \<Rightarrow> string" where
  "addExtension newName fileType =
     (let newName = replace newName ''{ext}'' fileType
      in if \<not> endsWith newName (CHR ''.'' # fileType) then newName @ CHR ''.'' # fileType else newName)"

definition videoNewName :: "NamingState \<Rightarrow> AniListResponse \<Rightarrow> FileInfo \<Rightarrow> nat \<Rightarrow> string" where
  "videoNewName st animeData file episodeNumber =
     (let (groupName, seasonNumber) = techInfo file;
          animeInfo = makeAnimeInfo animeData episodeNumber seasonNumber;
          newName = fillTemplate (fileNameTemplate st) animeInfo episodeNumber seasonNumber groupName
      in addExtension newName (file_type file))"

definition subtitleNewName :: "NamingState \<Rightarrow> AniListResponse \<Rightarrow> string \<Rightarrow> FileInfo \<Rightarrow> nat \<Rightarrow> string" where
  "subtitleNewName st animeData suffix file episodeNumber =
     (let (groupName, seasonNumber) = techInfo file;
          animeInfo = makeAnimeInfo animeData episodeNumber seasonNumber;
          newName = fillTemplate (fileNameTemplate st @ subtitleSuffix st) animeInfo episodeNumber
                      seasonNumber groupName;
          newName = (if suffix \<noteq> [] \<and> suffix \<noteq> ''default''
                     then replace newName ''{ext}'' (suffix @ ''.{ext}'')
                     else newName)
      in addExtension newName (file_type file))"

section \<open>Applying a metadata candidate\<close>

text \<open>
  An entry \<open>{file, originalIndex}\<close> is a pair, a subtitle entry \<open>{file, originalIndex, suffix}\<close>
  a triple. The \<open>file\<close> of an entry is the object at \<open>originalIndex\<close>; the loops write its
  \<open>metadata\<close> and \<open>new_name\<close> only and read its other fields only, so the entry holds the
  file as it was on entry and the writes go to the list.
\<close>

type_synonym videoEntry = "FileInfo \<times> nat"
type_synonym subtitleEntry = "FileInfo \<times> nat \<times> string"

definition withIndex :: "'a list \<Rightarrow> ('a \<times> nat) list" where
  "withIndex xs = zip xs [0..<length xs]"

definition videoFiles :: "(string \<Rightarrow> string \<Rightarrow> int) \<Rightarrow> FileInfo list \<Rightarrow> videoEntry list" where
  "videoFiles localeCompare updatedFiles =
     sortBy (\<lambda>a b. localeCompare (name (fst a)) (name (fst b)))
       (filter (\<lambda>e. is_video (fst e)) (withIndex updatedFiles))"

definition subtitleFiles :: "FileInfo list \<Rightarrow> subtitleEntry list" where
  "subtitleFiles updatedFiles =
     filter (\<lambda>e. is_subtitle (fst e))
       (map (\<lambda>(file, originalIndex). (file, originalIndex, extractSubtitleSuffix (name file)))
         (withIndex updatedFiles))"

text \<open>
  One step of the \<open>reduce\<close> that groups the subtitles. \<open>groups[suffix]\<close> also finds the
  properties inherited from \<open>Object.prototype\<close>: for such a key no array is created and the
  call of \<open>push\<close> throws a \<open>TypeError\<close>.
\<close>

definition addToGroup :: "(string \<times> subtitleEntry list) list \<Rightarrow> subtitleEntry
    \<Rightarrow> error + (string \<times> subtitleEntry list) list" where
  "addToGroup groups item =
     (let suffix = groupKey (snd (snd item))
      in case map_of groups suffix of
           Some members \<Rightarrow>
             Inr (map (\<lambda>(k, v). if k = suffix then (k, v @ [item]) else (k, v)) groups)
         | None \<Rightarrow>
             if suffix \<in> set objectPrototypeKeys then Inl TypeError
             else Inr (groups @ [(suffix, [item])]))"

fun reduceGroups :: "(string \<times> subtitleEntry list) list \<Rightarrow> subtitleEntry list
    \<Rightarrow> error + (string \<times> subtitleEntry list) list" where
  "reduceGroups groups [] = Inr groups"
| "reduceGroups groups (item # items) =
     (case addToGroup groups item of
        Inl e \<Rightarrow> Inl e
      | Inr groups' \<Rightarrow> reduceGroups groups' items)"

text \<open>Each group is sorted in place; the groups do not share members.\<close>

definition sortGroups :: "(string \<Rightarrow> string \<Rightarrow> int) \<Rightarrow> (string \<times> subtitleEntry list) list
    \<Rightarrow> (string \<times> subtitleEntry list) list" where
  "sortGroups localeCompare groups =
     map (\<lambda>(suffix, members).
            (suffix, sortBy (\<lambda>a b. localeCompare (name (fst a)) (name (fst b))) members)) groups"

text \<open>The body of the loop over the sorted videos.\<close>

definition processVideo :: "NamingState \<Rightarrow> AniListResponse \<Rightarrow> FileInfo list \<Rightarrow> videoEntry \<times> nat
    \<Rightarrow> FileInfo list" where
  "processVideo st animeData updatedFiles e =
     (let file = fst (fst e); originalIndex = snd (fst e); sortedIndex = snd e;
          episodeNumber = sortedIndex + 1;
          animeInfo = makeAnimeInfo animeData episodeNumber (snd (techInfo file));
          newName = videoNewName st animeData file episodeNumber
      in updatedFiles[originalIndex :=
           (updatedFiles ! originalIndex)\<lparr>metadata := Some animeInfo, new_name := Some newName\<rparr>])"

text \<open>The body of the loop over the sorted members of the group \<open>suffix\<close>.\<close>

definition processSubtitle :: "NamingState \<Rightarrow> AniListResponse \<Rightarrow> string \<Rightarrow> FileInfo list
    \<Rightarrow> subtitleEntry \<times> nat \<Rightarrow> FileInfo list" where
  "processSubtitle st animeData suffix updatedFiles e =
     (let file = fst (fst e); originalIndex = fst (snd (fst e)); groupIndex = snd e;
          episodeNumber = groupIndex + 1;
          animeInfo = makeAnimeInfo animeData episodeNumber (snd (techInfo file));
          newName = subtitleNewName st animeData suffix file episodeNumber
      in updatedFiles[originalIndex :=
           (updatedFiles ! originalIndex)\<lparr>metadata := Some animeInfo, new_name := Some newName\<rparr>])"

definition groupFiles :: "(string \<times> subtitleEntry list) list \<Rightarrow> string \<Rightarrow> subtitleEntry list" where
  "groupFiles groups suffix = (case map_of groups suffix of None \<Rightarrow> [] | Some members \<Rightarrow> members)"

text \<open>The loop over the sorted videos and the loop over the keys of the sorted groups.\<close>

definition videoPass :: "(string \<Rightarrow> string \<Rightarrow> int) \<Rightarrow> NamingState \<Rightarrow> AniListResponse
    \<Rightarrow> FileInfo list \<Rightarrow> FileInfo list" where
  "videoPass localeCompare st animeData files =
     foldl (processVideo st animeData) files (withIndex (videoFiles localeCompare files))"

definition subtitlePass :: "NamingState \<Rightarrow> AniListResponse \<Rightarrow> (string \<times> subtitleEntry list) list
    \<Rightarrow> FileInfo list \<Rightarrow> FileInfo list" where
  "subtitlePass st animeData subtitleGroups updatedFiles =
     foldl (\<lambda>u suffix.
              foldl (processSubtitle st animeData suffix) u
                (withIndex (groupFiles subtitleGroups suffix)))
       updatedFiles (objectKeys subtitleGroups)"

text \<open>
  \<open>applyMetadata\<close>: the new list of files that it hands to \<open>setFiles\<close>, or the error that
  it throws while it groups the subtitles, before it has written anything.
\<close>

definition applyMetadata :: "(string \<Rightarrow> string \<Rightarrow> int) \<Rightarrow> NamingState \<Rightarrow> AniListResponse
    \<Rightarrow> FileInfo list \<Rightarrow> error + FileInfo list" where
  "applyMetadata localeCompare st animeData files =
     (case reduceGroups [] (subtitleFiles files) of
        Inl e \<Rightarrow> Inl e
      | Inr groups \<Rightarrow>
          (let subtitleGroups = sortGroups localeCompare groups;
               updatedFiles = videoPass localeCompare st animeData files;
               updatedFiles = subtitlePass st animeData subtitleGroups updatedFiles
           in Inr updatedFiles))"

text \<open>
  The working set after a call of \<open>applyMetadata\<close>: the new list when the call returns;
  when it throws, \<open>setFiles\<close> is not reached and no file has been written to.
\<close>

definition filesAfter :: "(string \<Rightarrow> string \<Rightarrow> int) \<Rightarrow> NamingState \<Rightarrow> AniListResponse
    \<Rightarrow> FileInfo list \<Rightarrow> FileInfo list" where
  "filesAfter localeCompare st animeData files =
     (case applyMetadata localeCompare st animeData files of
        Inl e \<Rightarrow> files
      | Inr updatedFiles \<Rightarrow> updatedFiles)"

section \<open>Parsing the file names\<close>

text \<open>
  \<open>parseFilenames\<close> asks the parser, a collaborator outside the page, for each video in
  turn; \<open>parse\<close> is its answer to a file name and \<open>None\<close> its failure. A failure is caught
  and logged inside the loop, which goes on with the next video. The result of a parse goes
  to the first file of the list that has the path of the video.
\<close>

fun findIndex :: "('a \<Rightarrow> bool) \<Rightarrow> 'a list \<Rightarrow> nat option" where
  "findIndex P [] = None"
| "findIndex P (x # xs) = (if P x then Some 0 else map_option Suc (findIndex P xs))"

definition parseStep :: "(string \<Rightarrow> ParsedFilename option) \<Rightarrow> FileInfo list \<Rightarrow> FileInfo
    \<Rightarrow> FileInfo list" where
  "parseStep parse updatedFiles video =
     (case parse (name video) of
        None \<Rightarrow> updatedFiles
      | Some p \<Rightarrow>
          (case findIndex (\<lambda>f. path f = path video) updatedFiles of
             None \<Rightarrow> updatedFiles
           | Some fileIndex \<Rightarrow>
               updatedFiles[fileIndex := (updatedFiles ! fileIndex)\<lparr>parsed := Some p\<rparr>]))"

definition parseFilenames :: "(string \<Rightarrow> ParsedFilename option) \<Rightarrow> FileInfo list \<Rightarrow> FileInfo list" where
  "parseFilenames parse files = foldl (parseStep parse) files (filter is_video files)"

section \<open>The anime folder\<close>

text \<open>The folder name that \<open>processFiles\<close> builds from the folder template when
  \<open>createAnimeFolders\<close> is set; \<open>animeInfo\<close> is the metadata of the first file that has any.\<close>

definition animeFolder :: "NamingState \<Rightarrow> AnimeInfo \<Rightarrow> string" where
  "animeFolder st animeInfo =
     (let animeFolder = folderTemplate st;
          animeFolder = replace animeFolder ''{title}'' (title animeInfo);
          animeFolder = replace animeFolder ''{title_romaji}''
                          (orString (title_romaji animeInfo) (title animeInfo));
          animeFolder = replace animeFolder ''{title_english}''
                          (orString (title_english animeInfo) (title animeInfo))
      in if truthyNumber (year animeInfo)
         then replace animeFolder ''{year}'' (toString (the (year animeInfo)))
         else replace (replace animeFolder '' ({year})'' []) ''({year})'' [])"

section \<open>Notions used in the statements\<close>

text \<open>The season that \<open>applyMetadata\<close> stores for a file: \<open>seasonNumber || 1\<close>.\<close>

definition assignedSeason :: "FileInfo \<Rightarrow> int" where
  "assignedSeason file = orNumber (snd (techInfo file)) 1"

text \<open>
  The season and the release group as the specification words them: the season of the
  parse hint when it has one, else the digits of the first \<open>S<digits>\<close> of the file name,
  else 1; the group of the parse hint when it has one, else the contents of the first
  bracketed token of the file name, else none.
\<close>

definition specSeason :: "FileInfo \<Rightarrow> int" where
  "specSeason file =
     (case (case parsed file of None \<Rightarrow> None | Some p \<Rightarrow> ParsedFilename.season p) of
        Some s \<Rightarrow> s
      | None \<Rightarrow> (case matchSeason (name file) of Some ds \<Rightarrow> parseInt ds | None \<Rightarrow> 1))"

definition specGroup :: "FileInfo \<Rightarrow> string option" where
  "specGroup file =
     (case (case parsed file of None \<Rightarrow> None | Some p \<Rightarrow> group' p) of
        Some g \<Rightarrow> Some g
      | None \<Rightarrow> matchGroup (name file))"

text \<open>A working set in which no subtitle has a key that names a property inherited from
  \<open>Object.prototype\<close>; these are the working sets on which \<open>applyMetadata\<close> returns.\<close>

definition groupable :: "FileInfo list \<Rightarrow> bool" where
  "groupable files =
     list_all (\<lambda>f. is_subtitle f \<longrightarrow>
                 groupKey (extractSubtitleSuffix (name f)) \<notin> set objectPrototypeKeys) files"

text \<open>The subtitle entries with the key \<open>k\<close>, in the order of the list and sorted.\<close>

definition entryKey :: "subtitleEntry \<Rightarrow> string" where
  "entryKey item = groupKey (snd (snd item))"

definition partition' :: "FileInfo list \<Rightarrow> string \<Rightarrow> subtitleEntry list" where
  "partition' files k = filter (\<lambda>item. entryKey item = k) (subtitleFiles files)"

definition sortedPartition :: "(string \<Rightarrow> string \<Rightarrow> int) \<Rightarrow> FileInfo list \<Rightarrow> string
    \<Rightarrow> subtitleEntry list" where
  "sortedPartition localeCompare files k =
     sortBy (\<lambda>a b. localeCompare (name (fst a)) (name (fst b))) (partition' files k)"

text \<open>What the two loops write to a file.\<close>

definition videoResult :: "NamingState \<Rightarrow> AniListResponse \<Rightarrow> nat \<Rightarrow> FileInfo \<Rightarrow> FileInfo" where
  "videoResult st animeData episodeNumber file =
     file\<lparr>metadata := Some (makeAnimeInfo animeData episodeNumber (snd (techInfo file))),
          new_name := Some (videoNewName st animeData file episodeNumber)\<rparr>"

definition subtitleResult :: "NamingState \<Rightarrow> AniListResponse \<Rightarrow> string \<Rightarrow> nat \<Rightarrow> FileInfo
    \<Rightarrow> FileInfo" where
  "subtitleResult st animeData suffix episodeNumber file =
     file\<lparr>metadata := Some (makeAnimeInfo animeData episodeNumber (snd (techInfo file))),
          new_name := Some (subtitleNewName st animeData suffix file episodeNumber)\<rparr>"

text \<open>A comparator that \<open>sort\<close> can rely on: a total preorder.\<close>

definition consistentComparator :: "(string \<Rightarrow> string \<Rightarrow> int) \<Rightarrow> bool" where
  "consistentComparator c =
     ((\<forall>a b. c a b \<le> 0 \<or> c b a \<le> 0) \<and> (\<forall>a b d. c a b \<le> 0 \<longrightarrow> c b d \<le> 0 \<longrightarrow> c a d \<le> 0))"

text \<open>Text made of digits and the minus sign, as \<open>toString\<close> and \<open>padStart\<close> produce it.\<close>

definition plainText :: "string \<Rightarrow> bool" where
  "plainText s = (set s \<subseteq> set ''-0123456789'')"

section \<open>The comparison of the host\<close>

text \<open>
  \<open>a.localeCompare(b)\<close> without further arguments compares by the collation of the host's
  locale. The model is the root collation of the Unicode CLDR at its default strength, which
  is the comparison of every locale that does not tailor these characters, for text of
  printable ASCII characters and ASCII white space. The sort keys are compared: the primary
  weights of the characters first, where white space comes before punctuation and symbols
  (in the order of \<open>collationOrder\<close>), these before the digits, and the digits before the
  letters, a letter having the same primary weight in both cases; then, after a separator
  below every weight, the case of the characters, lower case before upper case. So
  \<open>a.mkv\<close> comes before \<open>B.mkv\<close>, and \<open>Aa\<close> before \<open>ab\<close> although \<open>a\<close> comes before \<open>A\<close>.
  The other characters are placed after the letters by code unit; the host has weights of
  its own for them.
\<close>

definition collationOrder :: string where
  "collationOrder =
     [CHR 0x09, CHR 0x0A, CHR 0x0B, CHR 0x0C, CHR 0x0D] @ '' _-,;:!?.'' @ [CHR 0x27, CHR 0x22]
     @ ''()[]{}@*/'' @ [CHR 0x5C] @ ''&#%'' @ [CHR 0x60] @ ''^+<=>|~$''
     @ ''0123456789abcdefghijklmnopqrstuvwxyz''"

definition isUpperCase :: "char \<Rightarrow> bool" where
  "isUpperCase c = (65 \<le> (of_char c :: nat) \<and> (of_char c :: nat) \<le> 90)"

definition toLowerCase :: "char \<Rightarrow> char" where
  "toLowerCase c = (if isUpperCase c then char_of ((of_char c :: nat) + 32) else c)"

definition primaryWeight :: "char \<Rightarrow> nat" where
  "primaryWeight c =
     (let i = length (takeWhile (\<lambda>d. d \<noteq> toLowerCase c) collationOrder)
      in if i < length collationOrder then Suc i
         else Suc (length collationOrder + of_char c))"

definition tertiaryWeight :: "char \<Rightarrow> nat" where
  "tertiaryWeight c = (if isUpperCase c then 1 else 0)"

definition sortKey :: "string \<Rightarrow> nat list" where
  "sortKey s = map primaryWeight s @ 0 # map tertiaryWeight s"

fun compareKeys :: "nat list \<Rightarrow> nat list \<Rightarrow> int" where
  "compareKeys [] [] = 0"
| "compareKeys [] (y # ys) = - 1"
| "compareKeys (x # xs) [] = 1"
| "compareKeys (x # xs) (y # ys) =
     (if x < y then - 1 else if y < x then 1 else compareKeys xs ys)"

definition localeCompare :: "string \<Rightarrow> string \<Rightarrow> int" where
  "localeCompare a b = compareKeys (sortKey a) (sortKey b)"

section \<open>Notions used in the proofs\<close>

text \<open>The writes of the loop over the subtitle groups, in the order of the keys \<open>ks\<close>:
  the key, the entry and its place in the sorted group.\<close>

definition subtitleWrites :: "(string \<Rightarrow> string \<Rightarrow> int) \<Rightarrow> FileInfo list \<Rightarrow> string list
    \<Rightarrow> (string \<times> subtitleEntry \<times> nat) list" where
  "subtitleWrites lc fs ks = concat (map (\<lambda>k. map (Pair k) (withIndex (sortedPartition lc fs k))) ks)"

text \<open>Text without a run of white space and without white space at either end.\<close>

fun singleSpaced :: "string \<Rightarrow> bool" where
  "singleSpaced [] = True"
| "singleSpaced [c] = (isWhiteSpace c \<longrightarrow> c = CHR '' '')"
| "singleSpaced (c # d # r) =
     ((isWhiteSpace c \<longrightarrow> c = CHR '' '' \<and> \<not> isWhiteSpace d) \<and> singleSpaced (d # r))"

definition trimmed :: "string \<Rightarrow> bool" where
  "trimmed s = (s = [] \<or> (\<not> isWhiteSpace (hd s) \<and> \<not> isWhiteSpace (last s)))"

text \<open>Two lists of files that agree on names and kinds; the order of the videos and of
  a subtitle group by index; the effect of a parse on one file.\<close>

definition sameNames :: "FileInfo list \<Rightarrow> FileInfo list \<Rightarrow> bool" where
  "sameNames fs gs =
     (length fs = length gs \<and>
      (\<forall>i < length fs. name (fs ! i) = name (gs ! i) \<and> is_video (fs ! i) = is_video (gs ! i)
                        \<and> is_subtitle (fs ! i) = is_subtitle (gs ! i)))"

definition videoOrder :: "(string \<Rightarrow> string \<Rightarrow> int) \<Rightarrow> FileInfo list \<Rightarrow> nat list" where
  "videoOrder lc fs =
     sortBy (\<lambda>i j. lc (name (fs ! i)) (name (fs ! j)))
       (filter (\<lambda>i. is_video (fs ! i)) [0..<length fs])"

definition partitionOrder :: "(string \<Rightarrow> string \<Rightarrow> int) \<Rightarrow> FileInfo list \<Rightarrow> string \<Rightarrow> nat list" where
  "partitionOrder lc fs k =
     sortBy (\<lambda>i j. lc (name (fs ! i)) (name (fs ! j)))
       (filter (\<lambda>i. is_subtitle (fs ! i) \<and> groupKey (extractSubtitleSuffix (name (fs ! i))) = k)
         [0..<length fs])"

definition parseUpdate :: "(string \<Rightarrow> ParsedFilename option) \<Rightarrow> FileInfo list \<Rightarrow> nat \<Rightarrow> FileInfo \<Rightarrow> FileInfo" where
  "parseUpdate parse fs j f = (case parse (name (fs ! j)) of None \<Rightarrow> f | Some p \<Rightarrow> f\<lparr>parsed := Some p\<rparr>)"

section \<open>Example inputs\<close>

text \<open>A file as the file dialog adds it, a candidate with a romaji title and an optional
  year, and the naming state with the default subtitle suffix and folder templates.\<close>

definition fileObject :: "string \<Rightarrow> string \<Rightarrow> bool \<Rightarrow> bool \<Rightarrow> FileInfo" where
  "fileObject n ext v s =
     \<lparr> path = ''/in/'' @ n, name = n, size' = 0, file_type = ext, is_video = v, is_subtitle = s,
       parsed = None, metadata = None, new_name = None \<rparr>"

definition candidate :: "string \<Rightarrow> int option \<Rightarrow> AniListResponse" where
  "candidate t y =
     \<lparr> id' = 1, AniListResponse.title = \<lparr> romaji = Some t, english = None, native = None \<rparr>,
       AniListResponse.format = None, episodes = None, season_year = y, cover_image = None \<rparr>"

definition namingState :: "string \<Rightarrow> NamingState" where
  "namingState template =
     \<lparr> fileNameTemplate = template, subtitleSuffix = ''.chs'',
       folderTemplate = ''{title_romaji} ({year})'', seasonFolderTemplate = ''Season {season}'',
       organizeBySeasons = True, createAnimeFolders = True \<rparr>"

definition hint :: "string \<Rightarrow> int option \<Rightarrow> string option \<Rightarrow> ParsedFilename" where
  "hint t s g =
     \<lparr> anime_title = t, episode_number = None, ParsedFilename.season = s, group' = g,
       resolution = None, video_codec = None, audio_codec = None \<rparr>"

text \<open>The end-to-end example, and a working set with two videos out of order, one of
  them with a parse result, a subtitle and a file that is neither.\<close>

definition exampleState :: NamingState where
  "exampleState = namingState ''{title_romaji} - {episode:02}''"

definition exampleCandidate :: AniListResponse where
  "exampleCandidate = candidate ''Example'' None"

definition exampleFiles :: "FileInfo list" where
  "exampleFiles =
     [fileObject ''X-01.mkv'' ''mkv'' True False, fileObject ''X-02.mkv'' ''mkv'' True False,
      fileObject ''X.chs.ass'' ''ass'' False True]"

definition workingSet :: "FileInfo list" where
  "workingSet =
     [fileObject ''B.mkv'' ''mkv'' True False,
      (fileObject ''A.mkv'' ''mkv'' True False)\<lparr>parsed := Some ((hint ''A'' None None)\<lparr>episode_number := Some 7\<rparr>)\<rparr>,
      fileObject ''X.chs.ass'' ''ass'' False True, fileObject ''notes.txt'' ''txt'' False False]"

definition workingSetPlanned :: "FileInfo list" where
  "workingSetPlanned =
     [videoResult exampleState exampleCandidate 2 (workingSet ! 0),
      videoResult exampleState exampleCandidate 1 (workingSet ! 1),
      subtitleResult exampleState exampleCandidate ''chs'' 1 (workingSet ! 2),
      workingSet ! 3]"

definition examplePlanned :: "FileInfo list" where
  "examplePlanned =
     [videoResult exampleState exampleCandidate 1 (exampleFiles ! 0),
      videoResult exampleState exampleCandidate 2 (exampleFiles ! 1),
      subtitleResult exampleState exampleCandidate ''chs'' 1 (exampleFiles ! 2)]"

text \<open>A naming state with season and group in the template, and the working set as it is
  after a run with that state and another candidate.\<close>

definition hintedState :: NamingState where
  "hintedState = namingState ''{title} S{season} [{group}]''"

definition workingSetOther :: "FileInfo list" where
  "workingSetOther =
     [videoResult hintedState (candidate ''Show'' None) 2 (workingSet ! 0),
      videoResult hintedState (candidate ''Show'' None) 1 (workingSet ! 1),
      subtitleResult hintedState (candidate ''Show'' None) ''chs'' 1 (workingSet ! 2),
      workingSet ! 3]"

text \<open>A video whose parse result has neither season nor group, while its name has both.\<close>

definition hintedFile :: FileInfo where
  "hintedFile =
     (fileObject ''[Grp] Show S02E01.mkv'' ''mkv'' True False)\<lparr>parsed := Some (hint ''Show'' None None)\<rparr>"

text \<open>Two videos that have not been parsed yet, and a parser that fails on the first.\<close>

definition freshFiles :: "FileInfo list" where
  "freshFiles =
     [fileObject ''[Grp] Show S02E01.mkv'' ''mkv'' True False,
      fileObject ''Show - 02.mkv'' ''mkv'' True False]"

definition failingParse :: "string \<Rightarrow> ParsedFilename option" where
  "failingParse n = (if n = ''Show - 02.mkv'' then Some (hint ''Show'' (Some 3) None) else None)"

definition freshPlanned :: "FileInfo list" where
  "freshPlanned =
     [videoResult hintedState (candidate ''Show'' None) 1 (freshFiles ! 0),
      videoResult hintedState (candidate ''Show'' None) 2
        ((freshFiles ! 1)\<lparr>parsed := Some (hint ''Show'' (Some 3) None)\<rparr>)]"

text \<open>A naming state whose folder template has the year without parentheses.\<close>

definition bareYearState :: NamingState where
  "bareYearState = (namingState [])\<lparr>folderTemplate := ''{title_romaji} {year}''\<rparr>"

text \<open>The metadata of a file planned with the candidate \<open>X\<close> that has no year.\<close>

definition noYearInfo :: AnimeInfo where
  "noYearInfo = makeAnimeInfo (candidate ''X'' None) 1 None"

text \<open>Two videos whose names differ in the case of the first letter, and a subtitle
  without parse result whose name has a season and a bracketed token.\<close>

definition mixedCaseFiles :: "FileInfo list" where
  "mixedCaseFiles =
     [fileObject ''B.mkv'' ''mkv'' True False, fileObject ''a.mkv'' ''mkv'' True False]"

definition bracketedSubtitle :: FileInfo where
  "bracketedSubtitle = fileObject ''[Grp] Show S02E01.chs.ass'' ''ass'' False True"

text \<open>A working set with a subtitle whose second-to-last segment is \<open>constructor\<close>, the
  name of a property that every object inherits.\<close>

definition inheritedKeyFiles :: "FileInfo list" where
  "inheritedKeyFiles =
     [fileObject ''X-01.mkv'' ''mkv'' True False,
      fileObject ''X.constructor.ass'' ''ass'' False True]"

section \<open>Strings\<close>

text \<open>Splitting at dots, replacing a pattern that is absent or is the whole text, and the
  texts that the number placeholders produce.\<close>

lemma split_not_Nil: "split d s \<noteq> []"
  by (induction s) (auto split: list.splits)

lemma split_no_separator: "d \<notin> set s \<Longrightarrow> split d s = [s]"
  by (induction s) auto

lemma split_append: "split d (xs @ d # ys) = split d xs @ split d ys"
proof (induction xs)
  case Nil
  show ?case by simp
next
  case (Cons x xs)
  then show ?case
    by (cases "split d xs") (auto simp: split_not_Nil)
qed

lemma extractSubtitleSuffix_segments:
  assumes "CHR ''.'' \<notin> set seg" "CHR ''.'' \<notin> set ext"
  shows "extractSubtitleSuffix (pre @ CHR ''.'' # seg @ CHR ''.'' # ext) = seg"
proof -
  have "split CHR ''.'' (pre @ CHR ''.'' # seg @ CHR ''.'' # ext)
        = split CHR ''.'' pre @ [seg, ext]"
    using assms by (simp add: split_append split_no_separator)
  moreover have "length (split CHR ''.'' pre) \<ge> 1"
    using split_not_Nil [of "CHR ''.''" pre] by (cases "split CHR ''.'' pre") auto
  ultimately show ?thesis
    by (simp add: extractSubtitleSuffix_def Let_def nth_append)
qed

lemma getSubstitution_plain: "CHR ''$'' \<notin> set rep \<Longrightarrow> getSubstitution m b a rep = rep"
  by (induction m b a rep rule: getSubstitution.induct) auto

lemma findFirst_Some_set: "findFirst pat s = Some (pre, post) \<Longrightarrow> s = pre @ pat @ post"
proof (induction s arbitrary: pre post)
  case Nil
  then show ?case by (auto split: if_splits)
next
  case (Cons c cs)
  show ?case
  proof (cases "startsWith (c # cs) pat")
    case True
    then have "take (length pat) (c # cs) = pat" by (simp add: startsWith_def)
    then have "c # cs = pat @ drop (length pat) (c # cs)"
      by (metis append_take_drop_id)
    with True Cons.prems show ?thesis by simp
  next
    case False
    with Cons.prems obtain pre' where "findFirst pat cs = Some (pre', post)" "pre = c # pre'"
      by (auto split: option.splits)
    with Cons.IH show ?thesis by simp
  qed
qed

lemma findFirst_None: "c \<in> set pat \<Longrightarrow> c \<notin> set s \<Longrightarrow> findFirst pat s = None"
proof (rule ccontr)
  assume a: "c \<in> set pat" "c \<notin> set s" and "findFirst pat s \<noteq> None"
  then obtain pre post where "findFirst pat s = Some (pre, post)" by auto
  then have "s = pre @ pat @ post" by (rule findFirst_Some_set)
  with a show False by (metis Un_iff set_append)
qed

lemma replace_absent: "c \<in> set pat \<Longrightarrow> c \<notin> set s \<Longrightarrow> replace s pat rep = s"
  by (simp add: replace_def findFirst_None)

lemma replace_whole: "pat \<noteq> [] \<Longrightarrow> CHR ''$'' \<notin> set rep \<Longrightarrow> replace pat pat rep = rep"
  by (cases pat) (simp_all add: replace_def startsWith_def getSubstitution_plain)

lemma collapseWhitespace_id: "\<forall>c\<in>set s. \<not> isWhiteSpace c \<Longrightarrow> collapseWhitespace s = s"
  by (induction s) auto

lemma dropWhile_none: "\<forall>c\<in>set s. \<not> P c \<Longrightarrow> dropWhile P s = s"
  by (cases s) auto

lemma trim_id: "\<forall>c\<in>set s. \<not> isWhiteSpace c \<Longrightarrow> trim s = s"
  by (simp add: trim_def dropWhile_none)

lemma digitChar_digit: "d < 10 \<Longrightarrow> digitChar d \<in> set ''0123456789''"
  unfolding digitChar_def by (rule nth_mem) simp

lemma natToString_digits: "set (natToString n) \<subseteq> set ''0123456789''"
proof (induction n rule: natToString.induct)
  case (1 n)
  show ?case
  proof (cases "n < 10")
    case True
    then show ?thesis using digitChar_digit [of n] by (subst natToString.simps) simp
  next
    case False
    have "n mod 10 < 10" by simp
    then have "digitChar (n mod 10) \<in> set ''0123456789''" by (rule digitChar_digit)
    with False 1 show ?thesis by (subst natToString.simps) simp
  qed
qed

lemma padStart_set: "set (padStart w c s) \<subseteq> insert c (set s)"
  by (auto simp: padStart_def)

lemma plainChars:
  "CHR ''{'' \<notin> set ''-0123456789''" "CHR ''$'' \<notin> set ''-0123456789''"
  "CHR ''.'' \<notin> set ''-0123456789''"
  "\<forall>c\<in>set ''-0123456789''. \<not> isWhiteSpace c"
  by (simp_all add: isWhiteSpace_def)

lemma plainText_fill:
  assumes "plainText s"
  shows "CHR ''{'' \<notin> set s" "CHR ''$'' \<notin> set s" "CHR ''.'' \<notin> set s" "\<forall>c\<in>set s. \<not> isWhiteSpace c"
  using assms plainChars unfolding plainText_def by blast+

lemma digits_plain: "set ''0123456789'' \<subseteq> set ''-0123456789''"
  by (simp add: subset_insertI)

lemma plainText_natToString: "plainText (natToString n)"
  unfolding plainText_def using natToString_digits digits_plain by (rule subset_trans)

lemma plainText_pad: "plainText s \<Longrightarrow> plainText (padStart w CHR ''0'' s)"
  unfolding plainText_def padStart_def by (induction "w - length s" arbitrary: w) auto

lemma plainText_toString: "plainText (toString i)"
proof (cases "i < 0")
  case True
  have "plainText (CHR ''-'' # natToString (nat (- i)))"
    using plainText_natToString [of "nat (- i)"] unfolding plainText_def by simp
  with True show ?thesis by (simp add: toString_def)
next
  case False
  then show ?thesis by (simp add: toString_def plainText_natToString)
qed

lemma replace_plain: "plainText s \<Longrightarrow> CHR ''{'' \<in> set pat \<Longrightarrow> replace s pat rep = s"
  using plainText_fill(1) by (intro replace_absent)

lemma clean_plain: "plainText s \<Longrightarrow> trim (collapseWhitespace s) = s"
  using plainText_fill(4) by (simp add: collapseWhitespace_id trim_id)

lemma placeholder_braces:
  "CHR ''{'' \<in> set ''{title}''" "CHR ''{'' \<in> set ''{title_romaji}''" "CHR ''{'' \<in> set ''{title_english}''"
  "CHR ''{'' \<in> set ''{episode}''" "CHR ''{'' \<in> set ''{episode:02}''" "CHR ''{'' \<in> set ''{episode:03}''"
  "CHR ''{'' \<in> set ''{season}''" "CHR ''{'' \<in> set ''{year}''" "CHR ''{'' \<in> set ''{group}''"
  "CHR ''{'' \<in> set ''{ext}''"
  by simp_all

lemma fill_episode:
  "fillTemplate ''{episode}'' info n s g = padStart 2 CHR ''0'' (natToString n)"
proof -
  let ?r = "padStart 2 CHR ''0'' (natToString n)"
  have p: "plainText ?r" by (intro plainText_pad plainText_natToString)
  have a: "replace ''{episode}'' ''{title}'' x = ''{episode}''"
          "replace ''{episode}'' ''{title_romaji}'' x = ''{episode}''"
          "replace ''{episode}'' ''{title_english}'' x = ''{episode}''" for x
    by (simp_all add: replace_def startsWith_def)
  have b: "replace ''{episode}'' ''{episode}'' ?r = ?r"
    using plainText_fill(2) [OF p] by (simp add: replace_whole)
  show ?thesis
    unfolding fillTemplate_def Let_def a b
    by (simp add: replace_plain [OF p] clean_plain [OF p])
qed

lemma fill_episode_02:
  "fillTemplate ''{episode:02}'' info n s g = padStart 2 CHR ''0'' (natToString n)"
proof -
  let ?r = "padStart 2 CHR ''0'' (natToString n)"
  have p: "plainText ?r" by (intro plainText_pad plainText_natToString)
  have a: "replace ''{episode:02}'' ''{title}'' x = ''{episode:02}''"
          "replace ''{episode:02}'' ''{title_romaji}'' x = ''{episode:02}''"
          "replace ''{episode:02}'' ''{title_english}'' x = ''{episode:02}''"
          "replace ''{episode:02}'' ''{episode}'' x = ''{episode:02}''" for x
    by (simp_all add: replace_def startsWith_def)
  have b: "replace ''{episode:02}'' ''{episode:02}'' ?r = ?r"
    using plainText_fill(2) [OF p] by (simp add: replace_whole)
  show ?thesis
    unfolding fillTemplate_def Let_def a b
    by (simp add: replace_plain [OF p] clean_plain [OF p])
qed

lemma fill_episode_03:
  "fillTemplate ''{episode:03}'' info n s g = padStart 3 CHR ''0'' (natToString n)"
proof -
  let ?r = "padStart 3 CHR ''0'' (natToString n)"
  have p: "plainText ?r" by (intro plainText_pad plainText_natToString)
  have a: "replace ''{episode:03}'' ''{title}'' x = ''{episode:03}''"
          "replace ''{episode:03}'' ''{title_romaji}'' x = ''{episode:03}''"
          "replace ''{episode:03}'' ''{title_english}'' x = ''{episode:03}''"
          "replace ''{episode:03}'' ''{episode}'' x = ''{episode:03}''"
          "replace ''{episode:03}'' ''{episode:02}'' x = ''{episode:03}''" for x
    by (simp_all add: replace_def startsWith_def)
  have b: "replace ''{episode:03}'' ''{episode:03}'' ?r = ?r"
    using plainText_fill(2) [OF p] by (simp add: replace_whole)
  show ?thesis
    unfolding fillTemplate_def Let_def a b
    by (simp add: replace_plain [OF p] clean_plain [OF p])
qed

lemma fill_season:
  "fillTemplate ''{season}'' info n s g = (if truthyNumber s then toString (the s) else ''1'')"
proof -
  let ?r = "if truthyNumber s then toString (the s) else ''1''"
  have one: "plainText ''1''" by (simp add: plainText_def)
  have p: "plainText ?r" using one by (simp add: plainText_toString)
  have a: "replace ''{season}'' ''{title}'' x = ''{season}''"
          "replace ''{season}'' ''{title_romaji}'' x = ''{season}''"
          "replace ''{season}'' ''{title_english}'' x = ''{season}''"
          "replace ''{season}'' ''{episode}'' x = ''{season}''"
          "replace ''{season}'' ''{episode:02}'' x = ''{season}''"
          "replace ''{season}'' ''{episode:03}'' x = ''{season}''" for x
    by (simp_all add: replace_def startsWith_def)
  have b: "(if truthyNumber s then replace ''{season}'' ''{season}'' (toString (the s))
            else replace ''{season}'' ''{season}'' ''1'') = ?r"
    using plainText_fill(2) [OF plainText_toString] plainText_fill(2) [OF one]
    by (simp add: replace_whole)
  show ?thesis
    unfolding fillTemplate_def Let_def a b
    by (simp only: replace_plain [OF p] placeholder_braces clean_plain [OF p] if_cancel)
qed

section \<open>The white space clean-up\<close>

lemma singleSpaced_Cons:
  "singleSpaced (c # r) \<longleftrightarrow>
     ((isWhiteSpace c \<longrightarrow> c = CHR '' '' \<and> (r \<noteq> [] \<longrightarrow> \<not> isWhiteSpace (hd r))) \<and> singleSpaced r)"
  by (cases r) auto

lemma collapseWhitespace_hd:
  "xs \<noteq> [] \<Longrightarrow> \<not> isWhiteSpace (hd xs) \<Longrightarrow> hd (collapseWhitespace xs) = hd xs \<and> collapseWhitespace xs \<noteq> []"
  by (cases xs) auto

lemma collapseWhitespace_Nil: "collapseWhitespace xs = [] \<longleftrightarrow> xs = []"
  by (cases xs) auto

lemma singleSpaced_collapse: "singleSpaced (collapseWhitespace s)"
proof (induction s rule: collapseWhitespace.induct)
  case 1
  show ?case by simp
next
  case (2 c cs)
  show ?case
  proof (cases "isWhiteSpace c")
    case True
    let ?r = "dropWhile isWhiteSpace cs"
    have "?r \<noteq> [] \<Longrightarrow> \<not> isWhiteSpace (hd (collapseWhitespace ?r))"
      using collapseWhitespace_hd [of ?r] hd_dropWhile [of isWhiteSpace cs] by simp
    with True 2 show ?thesis by (simp add: singleSpaced_Cons collapseWhitespace_Nil)
  next
    case False
    with 2 show ?thesis by (simp add: singleSpaced_Cons)
  qed
qed

lemma singleSpaced_append: "singleSpaced (xs @ ys) \<Longrightarrow> singleSpaced xs \<and> singleSpaced ys"
proof (induction xs)
  case Nil
  then show ?case by simp
next
  case (Cons x xs)
  then show ?case by (cases xs) (auto simp: singleSpaced_Cons)
qed

lemma dropTrailing_prefix: "xs = rev (dropWhile P (rev xs)) @ rev (takeWhile P (rev xs))"
  by (metis rev_append rev_rev_ident takeWhile_dropWhile_id)

lemma singleSpaced_trim: "singleSpaced s \<Longrightarrow> singleSpaced (trim s)"
proof -
  assume s: "singleSpaced s"
  let ?t = "dropWhile isWhiteSpace s"
  have "s = takeWhile isWhiteSpace s @ ?t" by simp
  with s have "singleSpaced ?t" by (metis singleSpaced_append)
  moreover have "?t = trim s @ rev (takeWhile isWhiteSpace (rev ?t))"
    unfolding trim_def by (rule dropTrailing_prefix)
  ultimately show ?thesis by (metis singleSpaced_append)
qed

lemma trimmed_trim: "trimmed (trim s)"
proof (cases "trim s = []")
  case True
  then show ?thesis by (simp add: trimmed_def)
next
  case False
  let ?t = "dropWhile isWhiteSpace s"
  let ?z = "dropWhile isWhiteSpace (rev ?t)"
  from False have z: "?z \<noteq> []" by (simp add: trim_def)
  have t: "?t \<noteq> []"
  proof
    assume "?t = []"
    with z show False by (metis dropWhile.simps(1) rev.simps(1))
  qed
  have "\<not> isWhiteSpace (hd ?z)" using z by (rule hd_dropWhile)
  then have l: "\<not> isWhiteSpace (last (trim s))" using z by (simp add: trim_def last_rev)
  have "last ?z = last (rev ?t)" using z by (metis last_appendR takeWhile_dropWhile_id)
  also have "\<dots> = hd ?t" using t by (simp add: last_rev)
  finally have "hd (trim s) = hd ?t" using z by (simp add: trim_def hd_rev)
  moreover have "\<not> isWhiteSpace (hd ?t)" using t by (rule hd_dropWhile)
  ultimately show ?thesis using l by (simp add: trimmed_def)
qed

lemma fillTemplate_clean:
  "singleSpaced (fillTemplate t info n s g) \<and> trimmed (fillTemplate t info n s g)"
  by (simp add: fillTemplate_def Let_def singleSpaced_trim singleSpaced_collapse trimmed_trim)

section \<open>Sorting and loops\<close>

text \<open>The stable sort keeps the elements and sorts them; a loop that writes to distinct
  places of a list leaves at each place the value of the one write that goes there.\<close>

subsection \<open>Sorting\<close>

lemma set_insertBy: "set (insertBy c x xs) = insert x (set xs)"
  by (induction xs) auto

lemma set_sortBy: "set (sortBy c xs) = set xs"
  by (induction xs) (simp_all add: sortBy_def set_insertBy)

lemma length_insertBy: "length (insertBy c x xs) = Suc (length xs)"
  by (induction xs) auto

lemma length_sortBy: "length (sortBy c xs) = length xs"
  by (induction xs) (simp_all add: sortBy_def length_insertBy)

lemma distinct_map_insertBy:
  "distinct (map f (insertBy c x xs)) = (f x \<notin> f ` set xs \<and> distinct (map f xs))"
  by (induction xs) (auto simp: set_insertBy)

lemma distinct_map_sortBy: "distinct (map f (sortBy c xs)) = distinct (map f xs)"
proof (induction xs)
  case Nil
  show ?case by (simp add: sortBy_def)
next
  case (Cons x xs)
  have "sortBy c (x # xs) = insertBy c x (sortBy c xs)" by (simp add: sortBy_def)
  with Cons show ?case by (simp add: distinct_map_insertBy set_sortBy)
qed

lemma sorted_insertBy:
  assumes tot: "\<And>a b. c a b \<le> 0 \<or> c b a \<le> 0"
    and tr: "\<And>a b d. c a b \<le> 0 \<Longrightarrow> c b d \<le> 0 \<Longrightarrow> c a d \<le> 0"
  shows "sorted_wrt (\<lambda>a b. c a b \<le> 0) xs \<Longrightarrow> sorted_wrt (\<lambda>a b. c a b \<le> 0) (insertBy c x xs)"
proof (induction xs)
  case Nil
  show ?case by simp
next
  case (Cons y ys)
  show ?case
  proof (cases "c x y \<le> 0")
    case True
    with Cons.prems tr show ?thesis by auto
  next
    case False
    with tot have "c y x \<le> 0" by blast
    with False Cons show ?thesis by (auto simp: set_insertBy)
  qed
qed

lemma sorted_sortBy:
  assumes tot: "\<And>a b. c a b \<le> 0 \<or> c b a \<le> 0"
    and tr: "\<And>a b d. c a b \<le> 0 \<Longrightarrow> c b d \<le> 0 \<Longrightarrow> c a d \<le> 0"
  shows "sorted_wrt (\<lambda>a b. c a b \<le> 0) (sortBy c xs)"
proof (induction xs)
  case Nil
  show ?case by (simp add: sortBy_def)
next
  case (Cons x xs)
  have "sortBy c (x # xs) = insertBy c x (sortBy c xs)" by (simp add: sortBy_def)
  with Cons sorted_insertBy [of c, OF tot tr] show ?case by simp
qed

subsection \<open>Loops that write to distinct places\<close>

lemma length_foldl_update:
  assumes "\<And>u e. step u e = u[key e := upd e (u ! key e)]"
  shows "length (foldl step u es) = length u"
  by (induction es arbitrary: u) (simp_all add: assms)

lemma foldl_update_untouched:
  assumes "\<And>u e. step u e = u[key e := upd e (u ! key e)]"
  shows "i \<notin> key ` set es \<Longrightarrow> foldl step u es ! i = u ! i"
  by (induction es arbitrary: u) (auto simp: assms)

lemma foldl_update_touched:
  assumes step: "\<And>u e. step u e = u[key e := upd e (u ! key e)]"
  shows "distinct (map key es) \<Longrightarrow> e \<in> set es \<Longrightarrow> key e < length u
         \<Longrightarrow> foldl step u es ! key e = upd e (u ! key e)"
proof (induction es arbitrary: u)
  case Nil
  then show ?case by simp
next
  case (Cons x xs)
  have s: "step u x = u[key x := upd x (u ! key x)]" by (rule step)
  show ?case
  proof (cases "e = x")
    case True
    with Cons.prems have "key e \<notin> key ` set xs" by auto
    then have "foldl step (step u x) xs ! key e = step u x ! key e"
      by (rule foldl_update_untouched [of step key upd, OF step])
    also have "\<dots> = upd e (u ! key e)"
      using True Cons.prems(3) by (simp add: s)
    finally show ?thesis by simp
  next
    case False
    with Cons.prems have e: "e \<in> set xs" and ne: "key x \<noteq> key e" and d: "distinct (map key xs)"
      by auto
    have "key e < length (step u x)" using Cons.prems(3) by (simp add: s)
    with d e have "foldl step (step u x) xs ! key e = upd e (step u x ! key e)"
      by (rule Cons.IH)
    also have "step u x ! key e = u ! key e" using ne by (simp add: s)
    finally show ?thesis by simp
  qed
qed

lemma foldl_nested:
  "foldl (\<lambda>u k. foldl (g k) u (h k)) u ks
   = foldl (\<lambda>u w. g (fst w) u (snd w)) u (concat (map (\<lambda>k. map (Pair k) (h k)) ks))"
proof (induction ks arbitrary: u)
  case Nil
  show ?case by simp
next
  case (Cons k ks)
  have "foldl (\<lambda>u w. g (fst w) u (snd w)) v (map (Pair k) es) = foldl (g k) v es" for v es
    by (induction es arbitrary: v) simp_all
  with Cons show ?case by simp
qed

lemma distinct_concat_tagged:
  assumes "distinct ks"
    and "\<And>k. k \<in> set ks \<Longrightarrow> distinct (map key (H k))"
    and "\<And>k w. k \<in> set ks \<Longrightarrow> w \<in> set (H k) \<Longrightarrow> tag (key w) = k"
  shows "distinct (map key (concat (map H ks)))"
  using assms
proof (induction ks)
  case Nil
  show ?case by simp
next
  case (Cons k ks)
  have "key ` set (H k) \<inter> key ` (\<Union>k'\<in>set ks. set (H k')) = {}"
  proof (rule ccontr)
    assume "key ` set (H k) \<inter> key ` (\<Union>k'\<in>set ks. set (H k')) \<noteq> {}"
    then obtain w w' k' where "w \<in> set (H k)" "k' \<in> set ks" "w' \<in> set (H k')" "key w = key w'"
      by auto
    with Cons.prems(3) [of k w] Cons.prems(3) [of k' w'] have "k = k'" by auto
    with \<open>k' \<in> set ks\<close> Cons.prems(1) show False by simp
  qed
  moreover have "distinct (map key (concat (map H ks)))"
    using Cons by auto
  ultimately show ?case using Cons.prems(2) [of k] by auto
qed

subsection \<open>Entries\<close>

lemma in_withIndex: "(x, i) \<in> set (withIndex xs) \<longleftrightarrow> i < length xs \<and> x = xs ! i"
  by (auto simp: withIndex_def in_set_zip)

lemma map_snd_withIndex: "map snd (withIndex xs) = [0..<length xs]"
  by (simp add: withIndex_def)

lemma map_fst_withIndex: "map fst (withIndex xs) = xs"
  by (simp add: withIndex_def)

lemma length_withIndex: "length (withIndex xs) = length xs"
  by (simp add: withIndex_def)

lemma nth_withIndex: "i < length xs \<Longrightarrow> withIndex xs ! i = (xs ! i, i)"
  by (simp add: withIndex_def)

subsection \<open>The loop over the videos\<close>

lemma videoFiles_set:
  "e \<in> set (videoFiles lc fs) \<longleftrightarrow> (snd e < length fs \<and> fst e = fs ! snd e \<and> is_video (fs ! snd e))"
  by (cases e) (auto simp: videoFiles_def set_sortBy in_withIndex)

lemma videoFiles_distinct: "distinct (map snd (videoFiles lc fs))"
  by (simp add: videoFiles_def distinct_map_sortBy distinct_map_filter map_snd_withIndex)

lemma processVideo_step:
  "processVideo st ad u e =
     u[snd (fst e) := (\<lambda>e f. f\<lparr>metadata := Some (makeAnimeInfo ad (snd e + 1) (snd (techInfo (fst (fst e))))),
                              new_name := Some (videoNewName st ad (fst (fst e)) (snd e + 1))\<rparr>) e
                      (u ! snd (fst e))]"
  by (simp add: processVideo_def Let_def)

lemma videoPass_length: "length (videoPass lc st ad fs) = length fs"
  unfolding videoPass_def by (rule length_foldl_update [OF processVideo_step])

lemma videoPass_other:
  assumes "i < length fs" "\<not> is_video (fs ! i)"
  shows "videoPass lc st ad fs ! i = fs ! i"
proof -
  have "i \<notin> (\<lambda>e. snd (fst e)) ` set (withIndex (videoFiles lc fs))"
  proof
    assume "i \<in> (\<lambda>e. snd (fst e)) ` set (withIndex (videoFiles lc fs))"
    then obtain e p where "(e, p) \<in> set (withIndex (videoFiles lc fs))" "snd e = i" by auto
    then have "e \<in> set (videoFiles lc fs)" by (auto simp: in_withIndex)
    with \<open>snd e = i\<close> assms show False by (simp add: videoFiles_set)
  qed
  then show ?thesis
    unfolding videoPass_def by (rule foldl_update_untouched [OF processVideo_step])
qed

lemma videoPass_entry:
  assumes "pos < length (videoFiles lc fs)" "videoFiles lc fs ! pos = (f, i)"
  shows "videoPass lc st ad fs ! i = videoResult st ad (pos + 1) (fs ! i)"
proof -
  let ?es = "withIndex (videoFiles lc fs)"
  have "(f, i) \<in> set (videoFiles lc fs)" using assms by (metis nth_mem)
  then have fi: "i < length fs" "f = fs ! i" by (simp_all add: videoFiles_set)
  have mem: "((f, i), pos) \<in> set ?es" using assms by (simp add: in_withIndex)
  have "map (\<lambda>e. snd (fst e)) ?es = map snd (map fst ?es)" by simp
  then have d: "distinct (map (\<lambda>e. snd (fst e)) ?es)"
    by (simp only: map_fst_withIndex videoFiles_distinct)
  have "foldl (processVideo st ad) fs ?es ! snd (fst ((f, i), pos))
        = (fs ! snd (fst ((f, i), pos)))\<lparr>metadata := Some (makeAnimeInfo ad (snd ((f, i), pos) + 1) (snd (techInfo (fst (fst ((f, i), pos)))))),
                              new_name := Some (videoNewName st ad (fst (fst ((f, i), pos))) (snd ((f, i), pos) + 1))\<rparr>"
    using d mem fi(1) by (intro foldl_update_touched [OF processVideo_step]) simp_all
  then show ?thesis by (simp add: videoPass_def videoResult_def fi)
qed

lemma videoPass_video:
  assumes "i < length fs" "is_video (fs ! i)"
  shows "\<exists>pos < length (videoFiles lc fs). videoFiles lc fs ! pos = (fs ! i, i)"
proof -
  have "(fs ! i, i) \<in> set (videoFiles lc fs)" using assms by (simp add: videoFiles_set)
  then show ?thesis by (auto simp: in_set_conv_nth)
qed

subsection \<open>Grouping the subtitles\<close>

lemma subtitleFiles_set:
  "e \<in> set (subtitleFiles fs) \<longleftrightarrow>
     (fst (snd e) < length fs \<and> fst e = fs ! fst (snd e) \<and> is_subtitle (fs ! fst (snd e))
      \<and> snd (snd e) = extractSubtitleSuffix (name (fs ! fst (snd e))))"
  by (cases e) (auto simp: subtitleFiles_def in_withIndex)

lemma subtitleFiles_distinct: "distinct (map (\<lambda>e. fst (snd e)) (subtitleFiles fs))"
proof -
  have "map (\<lambda>e. fst (snd e))
          (map (\<lambda>(file, originalIndex). (file, originalIndex, extractSubtitleSuffix (name file)))
            (withIndex fs)) = map snd (withIndex fs)"
    by (simp add: case_prod_beta)
  then show ?thesis
    unfolding subtitleFiles_def by (intro distinct_map_filter) (simp add: map_snd_withIndex)
qed

lemma map_of_append_item:
  "map_of (map (\<lambda>(k, v). if k = s then (k, v @ [x]) else (k, v)) gs) k
   = (if k = s then map_option (\<lambda>v. v @ [x]) (map_of gs k) else map_of gs k)"
  by (induction gs) auto

lemma map_fst_append_item:
  "map (fst \<circ> (\<lambda>(k, v). if k = s then (k, v @ [x]) else (k, v))) gs = map fst gs"
  by (induction gs) auto

lemma addToGroup_distinct:
  assumes a: "addToGroup gs item = Inr gs'" and d: "distinct (map fst gs)"
  shows "distinct (map fst gs')"
proof (cases "map_of gs (entryKey item)")
  case None
  then have "entryKey item \<notin> fst ` set gs" by (simp add: map_of_eq_None_iff)
  moreover from a None have "gs' = gs @ [(entryKey item, [item])]"
    by (simp add: addToGroup_def Let_def entryKey_def split: if_splits)
  ultimately show ?thesis using d by simp
next
  case (Some m)
  with a have "gs' = map (\<lambda>(k, v). if k = entryKey item then (k, v @ [item]) else (k, v)) gs"
    by (simp add: addToGroup_def Let_def entryKey_def)
  then show ?thesis using d by (simp add: map_fst_append_item)
qed

lemma addToGroup_map_of:
  assumes a: "addToGroup gs item = Inr gs'"
  shows "map_of gs' k = (if k = entryKey item
                         then Some ((case map_of gs k of None \<Rightarrow> [] | Some m \<Rightarrow> m) @ [item])
                         else map_of gs k)"
proof (cases "map_of gs (entryKey item)")
  case None
  with a have g: "gs' = gs @ [(entryKey item, [item])]"
    by (simp add: addToGroup_def Let_def entryKey_def split: if_splits)
  show ?thesis
  proof (cases "k = entryKey item")
    case True
    with None show ?thesis by (simp add: g map_add_def)
  next
    case False
    then show ?thesis by (simp add: g map_add_def split: option.splits)
  qed
next
  case (Some m)
  with a have "gs' = map (\<lambda>(k, v). if k = entryKey item then (k, v @ [item]) else (k, v)) gs"
    by (simp add: addToGroup_def Let_def entryKey_def)
  with Some show ?thesis by (simp only: map_of_append_item) simp
qed

lemma addToGroup_Inl:
  "addToGroup gs item = Inl e \<longleftrightarrow> (map_of gs (entryKey item) = None \<and> entryKey item \<in> set objectPrototypeKeys)"
  by (cases e) (auto simp: addToGroup_def Let_def entryKey_def split: option.splits)

lemma reduceGroups_Inr:
  assumes "reduceGroups gs items = Inr gs'" "distinct (map fst gs)"
  shows "distinct (map fst gs') \<and>
         (\<forall>k. map_of gs' k =
            (case map_of gs k of
               None \<Rightarrow> (if filter (\<lambda>it. entryKey it = k) items = [] then None
                         else Some (filter (\<lambda>it. entryKey it = k) items))
             | Some m \<Rightarrow> Some (m @ filter (\<lambda>it. entryKey it = k) items)))"
  using assms
proof (induction items arbitrary: gs)
  case Nil
  then show ?case by (auto split: option.splits)
next
  case (Cons item items)
  from Cons.prems(1) obtain g1 where a: "addToGroup gs item = Inr g1" and r: "reduceGroups g1 items = Inr gs'"
    by (auto split: sum.splits)
  note s = addToGroup_distinct [OF a Cons.prems(2)] addToGroup_map_of [OF a]
  from Cons.IH [OF r s(1)] show ?case
    by (auto simp: s(2) split: option.splits)
qed

lemma reduceGroups_empty:
  assumes "reduceGroups [] items = Inr gs"
  shows "distinct (map fst gs)"
    and "map_of gs k = (if filter (\<lambda>it. entryKey it = k) items = [] then None
                        else Some (filter (\<lambda>it. entryKey it = k) items))"
  using reduceGroups_Inr [OF assms] by simp_all

lemma reduceGroups_Inl:
  "reduceGroups gs items = Inl e \<Longrightarrow> \<exists>it \<in> set items. entryKey it \<in> set objectPrototypeKeys"
proof (induction items arbitrary: gs)
  case Nil
  then show ?case by simp
next
  case (Cons item items)
  then show ?case by (auto simp: addToGroup_Inl split: sum.splits)
qed

lemma reduceGroups_total:
  assumes "\<forall>it \<in> set items. entryKey it \<notin> set objectPrototypeKeys"
  shows "\<exists>gs'. reduceGroups gs items = Inr gs'"
  using assms reduceGroups_Inl [of gs items] by (cases "reduceGroups gs items") auto

lemma reduceGroups_fails:
  assumes "it \<in> set items" "entryKey it \<in> set objectPrototypeKeys"
    and "\<forall>k \<in> set objectPrototypeKeys. map_of gs k = None"
  shows "reduceGroups gs items = Inl TypeError"
  using assms
proof (induction items arbitrary: gs)
  case Nil
  then show ?case by simp
next
  case (Cons item items)
  show ?case
  proof (cases "addToGroup gs item")
    case (Inl e)
    then show ?thesis by (cases e) simp
  next
    case (Inr g1)
    have k: "entryKey item \<notin> set objectPrototypeKeys"
    proof
      assume "entryKey item \<in> set objectPrototypeKeys"
      with Cons.prems(3) have "addToGroup gs item = Inl TypeError"
        by (simp add: addToGroup_Inl)
      with Inr show False by simp
    qed
    have "map_of g1 k' = None" if "k' \<in> set objectPrototypeKeys" for k'
    proof -
      have "map_of g1 k' = (if k' = entryKey item
                         then Some ((case map_of gs k' of None \<Rightarrow> [] | Some m \<Rightarrow> m) @ [item])
                         else map_of gs k')"
        using Inr by (rule addToGroup_map_of)
      with that k Cons.prems(3) show ?thesis by auto
    qed
    then have "\<forall>k \<in> set objectPrototypeKeys. map_of g1 k = None" by blast
    moreover have "it \<in> set items" using Cons.prems(1,2) k by auto
    ultimately have "reduceGroups g1 items = Inl TypeError"
      using Cons.prems(2) by (intro Cons.IH)
    with Inr show ?thesis by simp
  qed
qed

subsection \<open>The loop over the subtitle groups\<close>

lemma sortBy_Nil: "sortBy c [] = []"
  by (simp add: sortBy_def)

lemma map_of_sortGroups:
  "map_of (sortGroups lc gs) k
   = map_option (sortBy (\<lambda>a b. lc (name (fst a)) (name (fst b)))) (map_of gs k)"
  by (induction gs) (auto simp: sortGroups_def)

lemma map_fst_sortGroups: "map fst (sortGroups lc gs) = map fst gs"
  by (induction gs) (auto simp: sortGroups_def)

lemma fst_set_sortGroups: "fst ` set (sortGroups lc gs) = fst ` set gs"
  by (simp only: set_map [symmetric] map_fst_sortGroups)

lemma groupFiles_sorted:
  assumes "reduceGroups [] (subtitleFiles fs) = Inr gs"
  shows "groupFiles (sortGroups lc gs) k = sortedPartition lc fs k"
  using reduceGroups_empty(2) [OF assms, of k]
  by (simp add: groupFiles_def map_of_sortGroups sortedPartition_def partition'_def sortBy_Nil)

lemma objectKeys_set: "set (objectKeys obj) = fst ` set obj"
  by (auto simp: objectKeys_def Let_def)

lemma objectKeys_distinct: "distinct (map fst obj) \<Longrightarrow> distinct (objectKeys obj)"
  by (auto simp: objectKeys_def Let_def)

lemma objectKeys_groups:
  assumes "reduceGroups [] (subtitleFiles fs) = Inr gs"
  shows "k \<in> set (objectKeys (sortGroups lc gs)) \<longleftrightarrow> partition' fs k \<noteq> []"
proof -
  have "k \<in> fst ` set gs \<longleftrightarrow> map_of gs k \<noteq> None"
    by (simp add: map_of_eq_None_iff)
  also have "\<dots> \<longleftrightarrow> partition' fs k \<noteq> []"
    using reduceGroups_empty(2) [OF assms, of k] by (simp add: partition'_def)
  finally show ?thesis
    by (simp add: objectKeys_set fst_set_sortGroups)
qed

lemma sortedPartition_set:
  "e \<in> set (sortedPartition lc fs k) \<longleftrightarrow> (e \<in> set (subtitleFiles fs) \<and> entryKey e = k)"
  by (auto simp: sortedPartition_def partition'_def set_sortBy)

lemma sortedPartition_distinct: "distinct (map (\<lambda>e. fst (snd e)) (sortedPartition lc fs k))"
  unfolding sortedPartition_def partition'_def
  by (simp add: distinct_map_sortBy distinct_map_filter subtitleFiles_distinct)

lemma processSubtitle_step:
  "(\<lambda>u w. processSubtitle st ad (fst w) u (snd w)) u w =
     u[fst (snd (fst (snd w))) :=
         (\<lambda>w f. f\<lparr>metadata := Some (makeAnimeInfo ad (snd (snd w) + 1) (snd (techInfo (fst (fst (snd w)))))),
                   new_name := Some (subtitleNewName st ad (fst w) (fst (fst (snd w))) (snd (snd w) + 1))\<rparr>) w
           (u ! fst (snd (fst (snd w))))]"
  by (simp add: processSubtitle_def Let_def)

lemma subtitlePass_writes:
  assumes "reduceGroups [] (subtitleFiles fs) = Inr gs"
  shows "subtitlePass st ad (sortGroups lc gs) u
         = foldl (\<lambda>u w. processSubtitle st ad (fst w) u (snd w)) u
             (subtitleWrites lc fs (objectKeys (sortGroups lc gs)))"
  unfolding subtitlePass_def subtitleWrites_def
  by (simp only: groupFiles_sorted [OF assms] foldl_nested)

lemma subtitleWrites_set:
  "(k, e, p) \<in> set (subtitleWrites lc fs ks) \<longleftrightarrow>
     (k \<in> set ks \<and> p < length (sortedPartition lc fs k) \<and> sortedPartition lc fs k ! p = e)"
proof -
  have "(k, e, p) \<in> set (subtitleWrites lc fs ks)
        \<longleftrightarrow> (\<exists>k' \<in> set ks. (k, e, p) \<in> Pair k' ` set (withIndex (sortedPartition lc fs k')))"
    by (simp add: subtitleWrites_def)
  also have "\<dots> \<longleftrightarrow> (k \<in> set ks \<and> (e, p) \<in> set (withIndex (sortedPartition lc fs k)))"
    by auto
  finally show ?thesis by (auto simp: in_withIndex)
qed

lemma subtitleWrites_distinct:
  assumes "distinct ks"
  shows "distinct (map (\<lambda>w. fst (snd (fst (snd w)))) (subtitleWrites lc fs ks))"
  unfolding subtitleWrites_def
proof (rule distinct_concat_tagged [where tag = "\<lambda>i. groupKey (extractSubtitleSuffix (name (fs ! i)))"])
  show "distinct ks" by (rule assms)
next
  fix k
  have "map (\<lambda>w. fst (snd (fst (snd w)))) (map (Pair k) (withIndex (sortedPartition lc fs k)))
        = map (\<lambda>e. fst (snd e)) (map fst (withIndex (sortedPartition lc fs k)))"
    by simp
  then show "distinct (map (\<lambda>w. fst (snd (fst (snd w)))) (map (Pair k) (withIndex (sortedPartition lc fs k))))"
    by (simp only: map_fst_withIndex sortedPartition_distinct)
next
  fix k w
  assume "k \<in> set ks" "w \<in> set (map (Pair k) (withIndex (sortedPartition lc fs k)))"
  then have "fst w = k" "fst (snd w) \<in> set (sortedPartition lc fs k)"
    by (auto simp: in_withIndex)
  then have "fst (snd w) \<in> set (subtitleFiles fs)" "entryKey (fst (snd w)) = k"
    by (simp_all add: sortedPartition_set)
  then show "groupKey (extractSubtitleSuffix (name (fs ! fst (snd (fst (snd w)))))) = k"
    by (simp add: subtitleFiles_set entryKey_def)
qed

section \<open>The result of applying a candidate\<close>

text \<open>What \<open>applyMetadata\<close> returns at each place of the list, and when it returns.\<close>

lemma subtitlePass_length:
  assumes g: "reduceGroups [] (subtitleFiles fs) = Inr gs"
  shows "length (subtitlePass st ad (sortGroups lc gs) u) = length u"
  unfolding subtitlePass_writes [OF g]
  by (rule length_foldl_update [where key = "\<lambda>w. fst (snd (fst (snd w)))", OF processSubtitle_step])

lemma subtitlePass_other:
  assumes g: "reduceGroups [] (subtitleFiles fs) = Inr gs"
    and i: "\<not> (i < length fs \<and> is_subtitle (fs ! i))"
  shows "subtitlePass st ad (sortGroups lc gs) u ! i = u ! i"
proof -
  let ?ws = "subtitleWrites lc fs (objectKeys (sortGroups lc gs))"
  have "i \<notin> (\<lambda>w. fst (snd (fst (snd w)))) ` set ?ws"
  proof
    assume "i \<in> (\<lambda>w. fst (snd (fst (snd w)))) ` set ?ws"
    then obtain w where w: "w \<in> set ?ws" "fst (snd (fst (snd w))) = i" by auto
    obtain k e p where "w = (k, e, p)" by (cases w) auto
    with w have "(k, e, p) \<in> set ?ws" and ei: "fst (snd e) = i" by simp_all
    then have "p < length (sortedPartition lc fs k)" "sortedPartition lc fs k ! p = e"
      by (simp_all add: subtitleWrites_set)
    then have "e \<in> set (sortedPartition lc fs k)" by (metis nth_mem)
    with ei have "e \<in> set (sortedPartition lc fs k)" "fst (snd e) = i" by simp_all
    then have "i < length fs \<and> is_subtitle (fs ! i)"
      by (auto simp: sortedPartition_set subtitleFiles_set)
    with i show False by simp
  qed
  then show ?thesis
    unfolding subtitlePass_writes [OF g]
    by (rule foldl_update_untouched [OF processSubtitle_step])
qed

lemma subtitlePass_entry:
  assumes g: "reduceGroups [] (subtitleFiles fs) = Inr gs"
    and p: "p < length (sortedPartition lc fs k)" "sortedPartition lc fs k ! p = (f, i, sfx)"
    and u: "length u = length fs"
  shows "subtitlePass st ad (sortGroups lc gs) u ! i
         = (u ! i)\<lparr>metadata := Some (makeAnimeInfo ad (p + 1) (snd (techInfo (fs ! i)))),
                    new_name := Some (subtitleNewName st ad k (fs ! i) (p + 1))\<rparr>"
proof -
  let ?ks = "objectKeys (sortGroups lc gs)"
  let ?ws = "subtitleWrites lc fs ?ks"
  let ?w = "(k, (f, i, sfx), p)"
  have e: "(f, i, sfx) \<in> set (sortedPartition lc fs k)" using p by (metis nth_mem)
  then have fi: "i < length fs" "f = fs ! i"
    by (simp_all add: sortedPartition_set subtitleFiles_set)
  from e have "partition' fs k \<noteq> []"
    by (auto simp: sortedPartition_def set_sortBy)
  then have "k \<in> set ?ks" by (simp add: objectKeys_groups [OF g])
  with p have mem: "?w \<in> set ?ws" by (simp add: subtitleWrites_set)
  have "distinct (map fst (sortGroups lc gs))"
    using reduceGroups_empty(1) [OF g] by (simp only: map_fst_sortGroups)
  then have "distinct ?ks" by (rule objectKeys_distinct)
  then have d: "distinct (map (\<lambda>w. fst (snd (fst (snd w)))) ?ws)"
    by (rule subtitleWrites_distinct)
  have "foldl (\<lambda>u w. processSubtitle st ad (fst w) u (snd w)) u ?ws ! fst (snd (fst (snd ?w)))
        = (u ! fst (snd (fst (snd ?w))))\<lparr>metadata := Some (makeAnimeInfo ad (snd (snd ?w) + 1) (snd (techInfo (fst (fst (snd ?w)))))),
                   new_name := Some (subtitleNewName st ad (fst ?w) (fst (fst (snd ?w))) (snd (snd ?w) + 1))\<rparr>"
    using d mem fi(1) u
    by (intro foldl_update_touched [where key = "\<lambda>w. fst (snd (fst (snd w)))", OF processSubtitle_step]) simp_all
  then show ?thesis
    by (simp add: subtitlePass_writes [OF g] fi)
qed

lemma subtitle_has_entry:
  assumes "i < length fs" "is_subtitle (fs ! i)"
  shows "\<exists>p < length (sortedPartition lc fs (groupKey (extractSubtitleSuffix (name (fs ! i))))).
           sortedPartition lc fs (groupKey (extractSubtitleSuffix (name (fs ! i)))) ! p
           = (fs ! i, i, extractSubtitleSuffix (name (fs ! i)))"
proof -
  have "(fs ! i, i, extractSubtitleSuffix (name (fs ! i)))
        \<in> set (sortedPartition lc fs (groupKey (extractSubtitleSuffix (name (fs ! i)))))"
    using assms by (simp add: sortedPartition_set subtitleFiles_set entryKey_def)
  then show ?thesis by (auto simp: in_set_conv_nth)
qed

lemma videoPass_shape:
  assumes "i < length fs"
  shows "\<exists>m n. videoPass lc st ad fs ! i = (fs ! i)\<lparr>metadata := m, new_name := n\<rparr>"
proof (cases "is_video (fs ! i)")
  case True
  from videoPass_video [OF assms True, of lc] obtain pos
    where "pos < length (videoFiles lc fs)" "videoFiles lc fs ! pos = (fs ! i, i)" by blast
  then have "videoPass lc st ad fs ! i = videoResult st ad (pos + 1) (fs ! i)"
    by (rule videoPass_entry)
  then show ?thesis unfolding videoResult_def by blast
next
  case False
  with assms have "videoPass lc st ad fs ! i = fs ! i" by (rule videoPass_other)
  then have "videoPass lc st ad fs ! i = (fs ! i)\<lparr>metadata := metadata (fs ! i), new_name := new_name (fs ! i)\<rparr>"
    by simp
  then show ?thesis by blast
qed

lemma applyMetadata_Inr:
  "applyMetadata lc st ad fs = Inr out \<longleftrightarrow>
     (\<exists>gs. reduceGroups [] (subtitleFiles fs) = Inr gs
        \<and> out = subtitlePass st ad (sortGroups lc gs) (videoPass lc st ad fs))"
  by (auto simp: applyMetadata_def Let_def split: sum.splits)

lemma applyMetadata_length:
  assumes "applyMetadata lc st ad fs = Inr out"
  shows "length out = length fs"
  using assms by (auto simp: applyMetadata_Inr subtitlePass_length videoPass_length)

lemma applyMetadata_other:
  assumes "applyMetadata lc st ad fs = Inr out" "i < length fs"
    "\<not> is_video (fs ! i)" "\<not> is_subtitle (fs ! i)"
  shows "out ! i = fs ! i"
  using assms by (auto simp: applyMetadata_Inr subtitlePass_other videoPass_other)

lemma applyMetadata_video:
  assumes a: "applyMetadata lc st ad fs = Inr out"
    and p: "pos < length (videoFiles lc fs)" "videoFiles lc fs ! pos = (f, i)"
    and s: "\<not> is_subtitle (fs ! i)"
  shows "out ! i = videoResult st ad (pos + 1) (fs ! i)"
proof -
  from a obtain gs where g: "reduceGroups [] (subtitleFiles fs) = Inr gs"
    and out: "out = subtitlePass st ad (sortGroups lc gs) (videoPass lc st ad fs)"
    by (auto simp: applyMetadata_Inr)
  have "out ! i = videoPass lc st ad fs ! i"
    unfolding out using g by (rule subtitlePass_other) (simp add: s)
  with p show ?thesis by (simp add: videoPass_entry)
qed

lemma applyMetadata_subtitle:
  assumes a: "applyMetadata lc st ad fs = Inr out"
    and p: "p < length (sortedPartition lc fs k)" "sortedPartition lc fs k ! p = (f, i, sfx)"
  shows "out ! i = subtitleResult st ad k (p + 1) (fs ! i)"
proof -
  from a obtain gs where g: "reduceGroups [] (subtitleFiles fs) = Inr gs"
    and out: "out = subtitlePass st ad (sortGroups lc gs) (videoPass lc st ad fs)"
    by (auto simp: applyMetadata_Inr)
  have "(f, i, sfx) \<in> set (sortedPartition lc fs k)" using p by (metis nth_mem)
  then have i: "i < length fs" by (simp add: sortedPartition_set subtitleFiles_set)
  from videoPass_shape [OF i, of lc st ad] obtain m n
    where v: "videoPass lc st ad fs ! i = (fs ! i)\<lparr>metadata := m, new_name := n\<rparr>" by blast
  have "out ! i = (videoPass lc st ad fs ! i)\<lparr>metadata := Some (makeAnimeInfo ad (p + 1) (snd (techInfo (fs ! i)))),
                    new_name := Some (subtitleNewName st ad k (fs ! i) (p + 1))\<rparr>"
    unfolding out using g p by (rule subtitlePass_entry) (simp add: videoPass_length)
  then show ?thesis by (simp add: v subtitleResult_def)
qed

lemma applyMetadata_returns:
  assumes "\<forall>f \<in> set fs. is_subtitle f \<longrightarrow> groupKey (extractSubtitleSuffix (name f)) \<notin> set objectPrototypeKeys"
  shows "\<exists>out. applyMetadata lc st ad fs = Inr out"
proof -
  have "\<forall>it \<in> set (subtitleFiles fs). entryKey it \<notin> set objectPrototypeKeys"
    using assms by (auto simp: subtitleFiles_set entryKey_def)
  from reduceGroups_total [OF this, of "[]"] show ?thesis
    by (auto simp: applyMetadata_Inr)
qed

lemma applyMetadata_throws:
  assumes "f \<in> set fs" "is_subtitle f" "groupKey (extractSubtitleSuffix (name f)) \<in> set objectPrototypeKeys"
  shows "applyMetadata lc st ad fs = Inl TypeError"
proof -
  from assms(1) obtain i where i: "i < length fs" "fs ! i = f" by (auto simp: in_set_conv_nth)
  let ?it = "(f, i, extractSubtitleSuffix (name f))"
  have "?it \<in> set (subtitleFiles fs)" using i assms(2) by (simp add: subtitleFiles_set)
  moreover have "entryKey ?it \<in> set objectPrototypeKeys" using assms(3) by (simp add: entryKey_def)
  ultimately have "reduceGroups [] (subtitleFiles fs) = Inl TypeError"
    by (rule reduceGroups_fails) simp
  then show ?thesis by (simp add: applyMetadata_def)
qed

lemma groupable_returns:
  assumes "groupable fs"
  shows "\<exists>out. applyMetadata lc st ad fs = Inr out"
  using assms by (intro applyMetadata_returns) (simp add: groupable_def list_all_iff)

lemma not_groupable_throws:
  assumes "\<not> groupable fs"
  shows "applyMetadata lc st ad fs = Inl TypeError"
proof -
  from assms obtain f where "f \<in> set fs" "is_subtitle f"
    "groupKey (extractSubtitleSuffix (name f)) \<in> set objectPrototypeKeys"
    by (auto simp: groupable_def list_all_iff)
  then show ?thesis by (rule applyMetadata_throws)
qed

lemma returns_groupable:
  assumes "applyMetadata lc st ad fs = Inr out"
  shows "groupable fs"
  using assms not_groupable_throws [of fs lc st ad] by (cases "groupable fs") simp_all

section \<open>Dependence on the inputs\<close>

lemma insertBy_map:
  "insertBy c (h x) (map h ys) = map h (insertBy (\<lambda>a b. c (h a) (h b)) x ys)"
  by (induction ys) auto

lemma sortBy_map: "sortBy c (map h xs) = map h (sortBy (\<lambda>a b. c (h a) (h b)) xs)"
  by (induction xs) (simp_all add: sortBy_def insertBy_map)

lemma insertBy_cong:
  "(\<And>y. y \<in> set ys \<Longrightarrow> c x y = c' x y) \<Longrightarrow> insertBy c x ys = insertBy c' x ys"
  by (induction ys) auto

lemma sortBy_cong:
  "(\<And>x y. x \<in> set xs \<Longrightarrow> y \<in> set xs \<Longrightarrow> c x y = c' x y) \<Longrightarrow> sortBy c xs = sortBy c' xs"
proof (induction xs)
  case Nil
  show ?case by (simp add: sortBy_def)
next
  case (Cons x xs)
  have "sortBy c (x # xs) = insertBy c x (sortBy c xs)" by (simp add: sortBy_def)
  also have "sortBy c xs = sortBy c' xs" using Cons.prems by (intro Cons.IH) simp_all
  also have "insertBy c x (sortBy c' xs) = insertBy c' x (sortBy c' xs)"
    using Cons.prems by (intro insertBy_cong) (simp_all add: set_sortBy)
  finally show ?case by (simp add: sortBy_def)
qed

lemma withIndex_map: "withIndex fs = map (\<lambda>i. (fs ! i, i)) [0..<length fs]"
  by (rule nth_equalityI) (simp_all add: withIndex_def)

lemma videoFiles_order: "videoFiles lc fs = map (\<lambda>i. (fs ! i, i)) (videoOrder lc fs)"
  by (simp add: videoFiles_def withIndex_map filter_map sortBy_map comp_def videoOrder_def)

lemma sortedPartition_order:
  "sortedPartition lc fs k
   = map (\<lambda>i. (fs ! i, i, extractSubtitleSuffix (name (fs ! i)))) (partitionOrder lc fs k)"
proof -
  have "partition' fs k = map (\<lambda>i. (fs ! i, i, extractSubtitleSuffix (name (fs ! i))))
          (filter (\<lambda>i. is_subtitle (fs ! i) \<and> groupKey (extractSubtitleSuffix (name (fs ! i))) = k)
            [0..<length fs])"
    by (simp add: partition'_def subtitleFiles_def withIndex_map filter_map comp_def entryKey_def conj_commute)
  then show ?thesis
    by (simp add: sortedPartition_def sortBy_map partitionOrder_def)
qed

lemma videoOrder_cong:
  assumes "sameNames fs gs"
  shows "videoOrder lc fs = videoOrder lc gs"
proof -
  from assms have l: "length fs = length gs"
    and n: "\<And>i. i < length gs \<Longrightarrow> name (fs ! i) = name (gs ! i)"
    and v: "\<And>i. i < length gs \<Longrightarrow> is_video (fs ! i) = is_video (gs ! i)"
    by (simp_all add: sameNames_def)
  have f: "filter (\<lambda>i. is_video (fs ! i)) [0..<length gs] = filter (\<lambda>i. is_video (gs ! i)) [0..<length gs]"
    by (rule filter_cong) (simp_all add: v)
  show ?thesis
    unfolding videoOrder_def l f by (rule sortBy_cong) (simp add: n)
qed

lemma partitionOrder_cong:
  assumes "sameNames fs gs"
  shows "partitionOrder lc fs k = partitionOrder lc gs k"
proof -
  from assms have l: "length fs = length gs"
    and n: "\<And>i. i < length gs \<Longrightarrow> name (fs ! i) = name (gs ! i)"
    and v: "\<And>i. i < length gs \<Longrightarrow> is_subtitle (fs ! i) = is_subtitle (gs ! i)"
    by (simp_all add: sameNames_def)
  have f: "filter (\<lambda>i. is_subtitle (fs ! i) \<and> groupKey (extractSubtitleSuffix (name (fs ! i))) = k) [0..<length gs]
         = filter (\<lambda>i. is_subtitle (gs ! i) \<and> groupKey (extractSubtitleSuffix (name (gs ! i))) = k) [0..<length gs]"
    by (rule filter_cong) (simp_all add: v n)
  show ?thesis
    unfolding partitionOrder_def l f by (rule sortBy_cong) (simp add: n)
qed

lemma applyMetadata_no_prototype_key:
  assumes "applyMetadata lc st ad fs = Inr out"
  shows "\<forall>f \<in> set fs. is_subtitle f \<longrightarrow> groupKey (extractSubtitleSuffix (name f)) \<notin> set objectPrototypeKeys"
proof (intro ballI impI notI)
  fix f assume "f \<in> set fs" "is_subtitle f" "groupKey (extractSubtitleSuffix (name f)) \<in> set objectPrototypeKeys"
  then have "applyMetadata lc st ad fs = Inl TypeError" by (rule applyMetadata_throws)
  with assms show False by simp
qed

lemma techInfo_cong: "name f = name g \<Longrightarrow> parsed f = parsed g \<Longrightarrow> techInfo f = techInfo g"
  by (simp add: techInfo_def split: option.splits)

lemma videoNewName_cong:
  assumes "name f = name g" "parsed f = parsed g" "file_type f = file_type g"
  shows "videoNewName st ad f n = videoNewName st ad g n"
  unfolding videoNewName_def techInfo_cong [OF assms(1,2)] assms(3) ..

lemma subtitleNewName_cong:
  assumes "name f = name g" "parsed f = parsed g" "file_type f = file_type g"
  shows "subtitleNewName st ad k f n = subtitleNewName st ad k g n"
  unfolding subtitleNewName_def techInfo_cong [OF assms(1,2)] assms(3) ..

lemma videoResult_cong:
  assumes "name f = name g" "parsed f = parsed g" "file_type f = file_type g"
  shows "videoResult st ad n f = f\<lparr>metadata := metadata (videoResult st ad n g),
                                   new_name := new_name (videoResult st ad n g)\<rparr>"
  unfolding videoResult_def techInfo_cong [OF assms(1,2)] videoNewName_cong [OF assms] by simp

lemma subtitleResult_cong:
  assumes "name f = name g" "parsed f = parsed g" "file_type f = file_type g"
  shows "subtitleResult st ad k n f = f\<lparr>metadata := metadata (subtitleResult st ad k n g),
                                        new_name := new_name (subtitleResult st ad k n g)\<rparr>"
  unfolding subtitleResult_def techInfo_cong [OF assms(1,2)] subtitleNewName_cong [OF assms] by simp

text \<open>What a run writes to a video or a subtitle depends on the names and kinds of all
  files and on the parse result and extension of the file itself.\<close>

lemma applyMetadata_local:
  assumes s: "sameNames fs gs" and a: "applyMetadata lc st ad fs = Inr out"
  shows "\<exists>out'. applyMetadata lc st ad gs = Inr out' \<and>
           (\<forall>i < length fs. parsed (fs ! i) = parsed (gs ! i) \<longrightarrow> file_type (fs ! i) = file_type (gs ! i) \<longrightarrow>
              (if is_video (fs ! i) \<or> is_subtitle (fs ! i)
               then out' ! i = (gs ! i)\<lparr>metadata := metadata (out ! i), new_name := new_name (out ! i)\<rparr>
               else out' ! i = gs ! i))"
proof -
  from s have l: "length fs = length gs"
    and n: "\<And>i. i < length gs \<Longrightarrow> name (fs ! i) = name (gs ! i)"
    and v: "\<And>i. i < length gs \<Longrightarrow> is_video (fs ! i) = is_video (gs ! i)"
    and u: "\<And>i. i < length gs \<Longrightarrow> is_subtitle (fs ! i) = is_subtitle (gs ! i)"
    by (simp_all add: sameNames_def)
  have "\<forall>g \<in> set gs. is_subtitle g \<longrightarrow> groupKey (extractSubtitleSuffix (name g)) \<notin> set objectPrototypeKeys"
  proof (intro ballI impI)
    fix g assume "g \<in> set gs" "is_subtitle g"
    then obtain i where i: "i < length gs" "gs ! i = g" by (auto simp: in_set_conv_nth)
    with \<open>is_subtitle g\<close> have "fs ! i \<in> set fs" "is_subtitle (fs ! i)" using l u by simp_all
    with applyMetadata_no_prototype_key [OF a]
    have "groupKey (extractSubtitleSuffix (name (fs ! i))) \<notin> set objectPrototypeKeys" by blast
    with i n show "groupKey (extractSubtitleSuffix (name g)) \<notin> set objectPrototypeKeys" by auto
  qed
  then obtain out' where b: "applyMetadata lc st ad gs = Inr out'"
    using applyMetadata_returns by blast
  have "if is_video (fs ! i) \<or> is_subtitle (fs ! i)
        then out' ! i = (gs ! i)\<lparr>metadata := metadata (out ! i), new_name := new_name (out ! i)\<rparr>
        else out' ! i = gs ! i"
    if i: "i < length fs" and p: "parsed (fs ! i) = parsed (gs ! i)" and t: "file_type (fs ! i) = file_type (gs ! i)"
    for i
  proof (cases "is_subtitle (fs ! i)")
    case True
    let ?k = "groupKey (extractSubtitleSuffix (name (fs ! i)))"
    from subtitle_has_entry [OF i True, of lc] obtain p where
      p: "p < length (sortedPartition lc fs ?k)"
         "sortedPartition lc fs ?k ! p = (fs ! i, i, extractSubtitleSuffix (name (fs ! i)))"
      by blast
    from p have po: "p < length (partitionOrder lc fs ?k)" "partitionOrder lc fs ?k ! p = i"
      by (simp_all add: sortedPartition_order)
    then have "p < length (sortedPartition lc gs ?k)"
      "sortedPartition lc gs ?k ! p = (gs ! i, i, extractSubtitleSuffix (name (gs ! i)))"
      by (simp_all add: sortedPartition_order partitionOrder_cong [OF s, symmetric])
    then have "out' ! i = subtitleResult st ad ?k (p + 1) (gs ! i)"
      by (rule applyMetadata_subtitle [OF b])
    moreover have "out ! i = subtitleResult st ad ?k (p + 1) (fs ! i)"
      using p by (rule applyMetadata_subtitle [OF a])
    moreover have "subtitleResult st ad ?k (p + 1) (gs ! i)
       = (gs ! i)\<lparr>metadata := metadata (subtitleResult st ad ?k (p + 1) (fs ! i)),
                  new_name := new_name (subtitleResult st ad ?k (p + 1) (fs ! i))\<rparr>"
      using i l n [of i] \<open>parsed (fs ! i) = parsed (gs ! i)\<close> t by (intro subtitleResult_cong) simp_all
    ultimately show ?thesis using True by simp
  next
    case False
    show ?thesis
    proof (cases "is_video (fs ! i)")
      case True
      from videoPass_video [OF i True, of lc] obtain pos where
        q: "pos < length (videoFiles lc fs)" "videoFiles lc fs ! pos = (fs ! i, i)" by blast
      then have "pos < length (videoOrder lc fs)" "videoOrder lc fs ! pos = i"
        by (simp_all add: videoFiles_order)
      then have q': "pos < length (videoFiles lc gs)" "videoFiles lc gs ! pos = (gs ! i, i)"
        by (simp_all add: videoFiles_order videoOrder_cong [OF s, symmetric])
      have "\<not> is_subtitle (gs ! i)" using False i l u [of i] by simp
      with q' have "out' ! i = videoResult st ad (pos + 1) (gs ! i)"
        by (intro applyMetadata_video [OF b])
      moreover have "out ! i = videoResult st ad (pos + 1) (fs ! i)"
        using q False by (intro applyMetadata_video [OF a])
      moreover have "videoResult st ad (pos + 1) (gs ! i)
         = (gs ! i)\<lparr>metadata := metadata (videoResult st ad (pos + 1) (fs ! i)),
                    new_name := new_name (videoResult st ad (pos + 1) (fs ! i))\<rparr>"
        using i l n [of i] p t by (intro videoResult_cong) simp_all
      ultimately show ?thesis using True by simp
    next
      case nv: False
      have "\<not> is_video (gs ! i)" "\<not> is_subtitle (gs ! i)" "i < length gs"
        using nv False i l u [of i] v [of i] by simp_all
      then have "out' ! i = gs ! i" using b by (intro applyMetadata_other [OF b])
      with nv False show ?thesis by simp
    qed
  qed
  with b show ?thesis by blast
qed

lemma applyMetadata_written:
  assumes a: "applyMetadata lc st ad fs = Inr out" and i: "i < length fs"
    and k: "is_video (fs ! i) \<or> is_subtitle (fs ! i)"
  shows "\<exists>m n. out ! i = (fs ! i)\<lparr>metadata := Some (makeAnimeInfo ad m (snd (techInfo (fs ! i)))), new_name := Some n\<rparr>"
proof (cases "is_subtitle (fs ! i)")
  case True
  from subtitle_has_entry [OF i True, of lc] applyMetadata_subtitle [OF a]
  show ?thesis unfolding subtitleResult_def by blast
next
  case False
  with k have "is_video (fs ! i)" by simp
  from videoPass_video [OF i this, of lc] obtain pos where
    "pos < length (videoFiles lc fs)" "videoFiles lc fs ! pos = (fs ! i, i)" by blast
  with False have "out ! i = videoResult st ad (pos + 1) (fs ! i)"
    by (intro applyMetadata_video [OF a])
  then show ?thesis unfolding videoResult_def by blast
qed

lemma sameNames_result:
  assumes a: "applyMetadata lc st ad fs = Inr out"
  shows "sameNames fs out"
    and "i < length fs \<Longrightarrow> parsed (fs ! i) = parsed (out ! i) \<and> file_type (fs ! i) = file_type (out ! i)"
proof -
  have *: "name (out ! i) = name (fs ! i) \<and> is_video (out ! i) = is_video (fs ! i)
        \<and> is_subtitle (out ! i) = is_subtitle (fs ! i) \<and> parsed (out ! i) = parsed (fs ! i)
        \<and> file_type (out ! i) = file_type (fs ! i)" if i: "i < length fs" for i
  proof (cases "is_video (fs ! i) \<or> is_subtitle (fs ! i)")
    case True
    from applyMetadata_written [OF a i True] show ?thesis by auto
  next
    case False
    with applyMetadata_other [OF a i] show ?thesis by simp
  qed
  show "sameNames fs out"
    using * by (simp add: sameNames_def applyMetadata_length [OF a])
  show "i < length fs \<Longrightarrow> parsed (fs ! i) = parsed (out ! i) \<and> file_type (fs ! i) = file_type (out ! i)"
    using * by simp
qed

section \<open>Parsing and the two comparisons\<close>

lemma findIndex_path:
  "distinct (map path u) \<Longrightarrow> j < length u \<Longrightarrow> findIndex (\<lambda>f. path f = path (u ! j)) u = Some j"
proof (induction u arbitrary: j)
  case Nil
  then show ?case by simp
next
  case (Cons x xs)
  show ?case
  proof (cases j)
    case 0
    then show ?thesis by simp
  next
    case (Suc j')
    with Cons.prems have "j' < length xs" "path (xs ! j') \<in> path ` set xs" "path x \<notin> path ` set xs"
      by auto
    then have "path x \<noteq> path (xs ! j')" by metis
    with Suc Cons show ?thesis by simp
  qed
qed

lemma parseStep_index:
  assumes "map path u = map path fs" "distinct (map path fs)" "j < length fs"
  shows "parseStep parse u (fs ! j) = u[j := parseUpdate parse fs j (u ! j)]"
proof -
  have l: "length u = length fs" using assms(1) by (metis length_map)
  have "path (u ! j) = path (fs ! j)"
    using assms(1,3) l by (metis nth_map)
  moreover have "findIndex (\<lambda>f. path f = path (u ! j)) u = Some j"
    using assms l by (intro findIndex_path) simp_all
  ultimately have "findIndex (\<lambda>f. path f = path (fs ! j)) u = Some j" by simp
  then show ?thesis
    by (simp add: parseStep_def parseUpdate_def split: option.splits)
qed

lemma map_path_parseUpdate: "map path (u[j := parseUpdate parse fs j (u ! j)]) = map path u"
proof -
  have "path (parseUpdate parse fs j (u ! j)) = path (u ! j)"
    by (simp add: parseUpdate_def split: option.splits)
  then show ?thesis
    by (metis list_update_id map_update)
qed

lemma parse_fold_index:
  assumes "distinct (map path fs)" "\<forall>j \<in> set js. j < length fs"
  shows "map path u = map path fs \<Longrightarrow>
         foldl (parseStep parse) u (map ((!) fs) js)
         = foldl (\<lambda>u j. u[j := parseUpdate parse fs j (u ! j)]) u js"
  using assms(2)
proof (induction js arbitrary: u)
  case Nil
  show ?case by simp
next
  case (Cons j js)
  have s: "parseStep parse u (fs ! j) = u[j := parseUpdate parse fs j (u ! j)]"
    using Cons.prems assms(1) by (intro parseStep_index) simp_all
  have "map path (u[j := parseUpdate parse fs j (u ! j)]) = map path fs"
    using Cons.prems(1) by (simp only: map_path_parseUpdate)
  with Cons.IH [of "u[j := parseUpdate parse fs j (u ! j)]"] Cons.prems(2) s show ?case by simp
qed

lemma filter_by_index: "filter P xs = map ((!) xs) (filter (\<lambda>i. P (xs ! i)) [0..<length xs])"
proof -
  have "filter P (map ((!) xs) [0..<length xs]) = map ((!) xs) (filter (\<lambda>i. P (xs ! i)) [0..<length xs])"
    by (simp add: filter_map comp_def)
  then show ?thesis by (simp add: map_nth)
qed

lemma parseFilenames_index:
  assumes "distinct (map path fs)"
  shows "parseFilenames parse fs
         = foldl (\<lambda>u j. u[j := parseUpdate parse fs j (u ! j)]) fs
             (filter (\<lambda>j. is_video (fs ! j)) [0..<length fs])"
proof -
  have "parseFilenames parse fs
        = foldl (parseStep parse) fs (map ((!) fs) (filter (\<lambda>j. is_video (fs ! j)) [0..<length fs]))"
    unfolding parseFilenames_def by (subst filter_by_index) simp
  also have "\<dots> = foldl (\<lambda>u j. u[j := parseUpdate parse fs j (u ! j)]) fs
             (filter (\<lambda>j. is_video (fs ! j)) [0..<length fs])"
    using assms by (intro parse_fold_index) simp_all
  finally show ?thesis .
qed

lemma parseFilenames_length: "distinct (map path fs) \<Longrightarrow> length (parseFilenames parse fs) = length fs"
  unfolding parseFilenames_index
  by (rule length_foldl_update [where key = "\<lambda>j. j" and upd = "parseUpdate parse fs"]) simp

lemma parseFilenames_nth:
  assumes d: "distinct (map path fs)" and i: "i < length fs"
  shows "parseFilenames parse fs ! i
         = (if is_video (fs ! i) then parseUpdate parse fs i (fs ! i) else fs ! i)"
proof (cases "is_video (fs ! i)")
  case True
  let ?js = "filter (\<lambda>j. is_video (fs ! j)) [0..<length fs]"
  have "foldl (\<lambda>u j. u[j := parseUpdate parse fs j (u ! j)]) fs ?js ! (\<lambda>j. j) i
        = parseUpdate parse fs i (fs ! (\<lambda>j. j) i)"
    using True i
    by (intro foldl_update_touched [where key = "\<lambda>j. j" and upd = "parseUpdate parse fs"]) simp_all
  with True show ?thesis by (simp add: parseFilenames_index [OF d])
next
  case False
  let ?js = "filter (\<lambda>j. is_video (fs ! j)) [0..<length fs]"
  have "i \<notin> (\<lambda>j. j) ` set ?js" using False by simp
  then have "foldl (\<lambda>u j. u[j := parseUpdate parse fs j (u ! j)]) fs ?js ! i = fs ! i"
    by (rule foldl_update_untouched [where key = "\<lambda>j. j" and upd = "parseUpdate parse fs", rotated]) simp
  with False show ?thesis by (simp add: parseFilenames_index [OF d])
qed

lemma parseUpdate_fields:
  "name (parseUpdate parse fs j f) = name f" "is_video (parseUpdate parse fs j f) = is_video f"
  "is_subtitle (parseUpdate parse fs j f) = is_subtitle f" "file_type (parseUpdate parse fs j f) = file_type f"
  by (simp_all add: parseUpdate_def split: option.splits)

lemma parseFilenames_fields:
  assumes d: "distinct (map path fs)" and i: "i < length fs"
  shows "name (parseFilenames parse fs ! i) = name (fs ! i)"
    and "is_video (parseFilenames parse fs ! i) = is_video (fs ! i)"
    and "is_subtitle (parseFilenames parse fs ! i) = is_subtitle (fs ! i)"
    and "file_type (parseFilenames parse fs ! i) = file_type (fs ! i)"
  by (simp_all add: parseFilenames_nth [OF d i] parseUpdate_fields)

lemma parseFilenames_sameNames:
  assumes d: "distinct (map path fs)"
  shows "sameNames fs (parseFilenames parse fs)"
  unfolding sameNames_def
  using parseFilenames_length [OF d, of parse] parseFilenames_fields [OF d, of _ parse] by simp

lemma sameNames_sym: "sameNames fs gs \<Longrightarrow> sameNames gs fs"
  unfolding sameNames_def by simp

lemma sameNames_trans: "sameNames fs gs \<Longrightarrow> sameNames gs hs \<Longrightarrow> sameNames fs hs"
  unfolding sameNames_def by simp

text \<open>The comparison of the specification is a total preorder.\<close>

lemma specCompare_Cons:
  "specCompare (x # xs) (y # ys) \<le> 0 \<longleftrightarrow>
     (of_char x < (of_char y :: nat) \<or> (of_char x = (of_char y :: nat) \<and> specCompare xs ys \<le> 0))"
  by auto

lemma specCompare_Nil: "specCompare [] b \<le> 0" "specCompare (x # xs) [] \<le> 0 \<longleftrightarrow> False"
  by (cases b) simp_all

lemma specCompare_total: "specCompare a b \<le> 0 \<or> specCompare b a \<le> 0"
proof (induction a arbitrary: b)
  case Nil
  show ?case by (simp add: specCompare_Nil)
next
  case (Cons x xs)
  show ?case
  proof (cases b)
    case Nil
    then show ?thesis by (simp add: specCompare_Nil)
  next
    case (Cons y ys)
    with Cons.IH [of ys] show ?thesis
      unfolding Cons specCompare_Cons by linarith
  qed
qed

lemma specCompare_trans:
  "specCompare a b \<le> 0 \<Longrightarrow> specCompare b d \<le> 0 \<Longrightarrow> specCompare a d \<le> 0"
proof (induction a arbitrary: b d)
  case Nil
  show ?case by (simp add: specCompare_Nil)
next
  case (Cons x xs)
  from Cons.prems(1) obtain y ys where b: "b = y # ys"
    by (cases b) (simp_all add: specCompare_Nil del: specCompare.simps)
  from Cons.prems(2) b obtain z zs where d: "d = z # zs"
    by (cases d) (simp_all add: specCompare_Nil del: specCompare.simps)
  from Cons.prems have
    1: "of_char x < (of_char y :: nat) \<or> (of_char x = (of_char y :: nat) \<and> specCompare xs ys \<le> 0)" and
    2: "of_char y < (of_char z :: nat) \<or> (of_char y = (of_char z :: nat) \<and> specCompare ys zs \<le> 0)"
    unfolding b d specCompare_Cons by simp_all
  have "of_char x < (of_char z :: nat) \<or> (of_char x = (of_char z :: nat) \<and> specCompare xs zs \<le> 0)"
    using 1 2 Cons.IH [of ys zs] by auto
  then show ?case unfolding d specCompare_Cons .
qed

lemma consistent_specCompare: "consistentComparator specCompare"
  unfolding consistentComparator_def
  using specCompare_total specCompare_trans by blast

text \<open>The comparison of the host is a total preorder as well: it compares sort keys.\<close>

lemma compareKeys_Cons:
  "compareKeys (x # xs) (y # ys) \<le> 0 \<longleftrightarrow> (x < y \<or> (x = y \<and> compareKeys xs ys \<le> 0))"
  by auto

lemma compareKeys_Nil: "compareKeys [] b \<le> 0" "compareKeys (x # xs) [] \<le> 0 \<longleftrightarrow> False"
  by (cases b) simp_all

lemma compareKeys_total: "compareKeys a b \<le> 0 \<or> compareKeys b a \<le> 0"
proof (induction a arbitrary: b)
  case Nil
  show ?case by (simp add: compareKeys_Nil)
next
  case (Cons x xs)
  show ?case
  proof (cases b)
    case Nil
    then show ?thesis by (simp add: compareKeys_Nil)
  next
    case (Cons y ys)
    with Cons.IH [of ys] show ?thesis
      unfolding Cons compareKeys_Cons by linarith
  qed
qed

lemma compareKeys_trans:
  "compareKeys a b \<le> 0 \<Longrightarrow> compareKeys b d \<le> 0 \<Longrightarrow> compareKeys a d \<le> 0"
proof (induction a arbitrary: b d)
  case Nil
  show ?case by (simp add: compareKeys_Nil)
next
  case (Cons x xs)
  from Cons.prems(1) obtain y ys where b: "b = y # ys"
    by (cases b) (simp_all add: compareKeys_Nil del: compareKeys.simps)
  from Cons.prems(2) b obtain z zs where d: "d = z # zs"
    by (cases d) (simp_all add: compareKeys_Nil del: compareKeys.simps)
  from Cons.prems have
    1: "x < y \<or> (x = y \<and> compareKeys xs ys \<le> 0)" and
    2: "y < z \<or> (y = z \<and> compareKeys ys zs \<le> 0)"
    unfolding b d compareKeys_Cons by simp_all
  have "x < z \<or> (x = z \<and> compareKeys xs zs \<le> 0)"
    using 1 2 Cons.IH [of ys zs] by auto
  then show ?case unfolding d compareKeys_Cons .
qed

lemma consistent_localeCompare: "consistentComparator localeCompare"
  unfolding consistentComparator_def localeCompare_def
  using compareKeys_total compareKeys_trans by blast

section \<open>The example runs\<close>

text \<open>The runs of \<open>applyMetadata\<close> on the example inputs, evaluated.\<close>

lemma workingSet_run:
  "applyMetadata localeCompare exampleState exampleCandidate workingSet = Inr workingSetPlanned"
  by code_simp

lemma workingSet_other_run:
  "applyMetadata localeCompare hintedState (candidate ''Show'' None) workingSet = Inr workingSetOther"
  by code_simp

lemma workingSet_facts:
  "length workingSet = 4"
  "is_video (workingSet ! 0)" "\<not> is_subtitle (workingSet ! 0)"
  "is_video (workingSet ! 1)" "\<not> is_subtitle (workingSet ! 1)"
  "is_subtitle (workingSet ! 2)"
  "\<not> is_video (workingSet ! 3)" "\<not> is_subtitle (workingSet ! 3)"
  by (simp_all add: workingSet_def fileObject_def)



lemma list3: "length xs = 3 \<Longrightarrow> xs = [xs ! 0, xs ! 1, xs ! 2]"
  by (rule nth_equalityI) (auto simp: less_Suc_eq numeral_3_eq_3 numeral_2_eq_2)

lemma exampleFiles_videoFiles:
  assumes "lc ''X-01.mkv'' ''X-02.mkv'' < 0"
  shows "videoFiles lc exampleFiles = [(exampleFiles ! 0, 0), (exampleFiles ! 1, 1)]"
  using assms
  by (simp add: videoFiles_def exampleFiles_def withIndex_def sortBy_def fileObject_def upt_rec)

lemma exampleFiles_partition:
  "sortedPartition lc exampleFiles ''chs'' = [(exampleFiles ! 2, 2, ''chs'')]"
  by (simp add: sortedPartition_def partition'_def subtitleFiles_def exampleFiles_def withIndex_def
      sortBy_def fileObject_def upt_rec entryKey_def groupKey_def extractSubtitleSuffix_def)

lemma examplePlanned_names:
  "map new_name examplePlanned
   = [Some ''Example - 01.mkv'', Some ''Example - 02.mkv'', Some ''Example - 01.chs.ass'']"
  by code_simp

lemma exampleFiles_facts:
  "length exampleFiles = 3" "\<not> is_subtitle (exampleFiles ! 0)" "\<not> is_subtitle (exampleFiles ! 1)"
  "is_subtitle (exampleFiles ! 2)"
  "\<forall>f \<in> set exampleFiles. is_subtitle f \<longrightarrow>
      groupKey (extractSubtitleSuffix (name f)) \<notin> set objectPrototypeKeys"
  by (simp_all add: exampleFiles_def fileObject_def groupKey_def extractSubtitleSuffix_def
      objectPrototypeKeys_def)

lemma exampleFiles_run:
  assumes "lc ''X-01.mkv'' ''X-02.mkv'' < 0"
  shows "applyMetadata lc exampleState exampleCandidate exampleFiles = Inr examplePlanned"
proof -
  from applyMetadata_returns [OF exampleFiles_facts(5)] obtain out where
    a: "applyMetadata lc exampleState exampleCandidate exampleFiles = Inr out" by blast
  note v = exampleFiles_videoFiles [of lc, OF assms]
  have o0: "out ! 0 = videoResult exampleState exampleCandidate 1 (exampleFiles ! 0)"
    using applyMetadata_video [OF a, of 0 "exampleFiles ! 0" 0] exampleFiles_facts(2) v by simp
  have o1: "out ! 1 = videoResult exampleState exampleCandidate 2 (exampleFiles ! 1)"
    using applyMetadata_video [OF a, of 1 "exampleFiles ! 1" 1] exampleFiles_facts(3) v
    by (simp add: numeral_2_eq_2)
  have o2: "out ! 2 = subtitleResult exampleState exampleCandidate ''chs'' 1 (exampleFiles ! 2)"
    using applyMetadata_subtitle [OF a, of 0 "''chs''" "exampleFiles ! 2" 2 "''chs''"]
    by (simp add: exampleFiles_partition)
  have "length out = 3"
    using applyMetadata_length [OF a] by (simp add: exampleFiles_facts)
  then have "out = [out ! 0, out ! 1, out ! 2]" by (rule list3)
  also have "\<dots> = examplePlanned" unfolding examplePlanned_def o0 o1 o2 ..
  finally have "out = examplePlanned" .
  with a show ?thesis by simp
qed

lemma localeCompare_example: "localeCompare ''X-01.mkv'' ''X-02.mkv'' < 0"
  by code_simp

lemma examplePlanned_subtitle:
  "map_option episode (metadata (examplePlanned ! 2)) = Some (Some 1)"
  "new_name (examplePlanned ! 2) = Some ''Example - 01.chs.ass''"
  by code_simp+

lemma hintedFile_run:
  "applyMetadata localeCompare hintedState (candidate ''Show'' None) [hintedFile]
     = Inr [videoResult hintedState (candidate ''Show'' None) 1 hintedFile]"
  by code_simp

lemma hintedFile_facts:
  "0 < length [hintedFile]" "is_video ([hintedFile] ! 0) \<or> is_subtitle ([hintedFile] ! 0)"
  "parsed ([hintedFile] ! 0) = Some (hint ''Show'' None None)"
  "ParsedFilename.season (hint ''Show'' None None) = None"
  by (simp_all add: hintedFile_def fileObject_def hint_def)

lemma written_fixed:
  assumes "out ! j = (g)\<lparr>metadata := Some m, new_name := Some n\<rparr>"
  shows "g\<lparr>metadata := metadata (out ! j), new_name := new_name (out ! j)\<rparr> = out ! j"
  using assms by simp

lemma freshFiles_run:
  "applyMetadata localeCompare hintedState (candidate ''Show'' None) (parseFilenames failingParse freshFiles)
   = Inr freshPlanned"
  by code_simp

lemma freshFiles_facts:
  "distinct (map path freshFiles)" "0 < length freshFiles" "parsed (freshFiles ! 0) = None"
  "failingParse (name (freshFiles ! 0)) = None" "is_video (freshFiles ! 0)"
  "name (freshFiles ! 0) = ''[Grp] Show S02E01.mkv''"
  by (simp_all add: freshFiles_def fileObject_def failingParse_def)

lemma freshFiles_fallback:
  "matchSeason ''[Grp] Show S02E01.mkv'' = Some ''02''" "parseInt ''02'' = 2"
  "matchGroup ''[Grp] Show S02E01.mkv'' = Some ''Grp''"
  "new_name (freshPlanned ! 0) = Some ''Show S2 [Grp].mkv''"
  "new_name (freshPlanned ! 1) = Some ''Show S3 [].mkv''"
  by code_simp+

lemma noYearInfo_facts: "title noYearInfo = ''X'' \<and> \<not> truthyNumber (year noYearInfo)"
  by code_simp

lemma no_dot: "CHR ''.'' \<notin> set ''chs'' \<and> CHR ''.'' \<notin> set ''ass''" "CHR ''.'' \<notin> set ''Show'' \<and> CHR ''.'' \<notin> set ''ass''"
  by simp_all


lemma exampleFiles_groupable: "groupable exampleFiles"
  by code_simp

lemma hintedFile_groupable: "groupable [hintedFile]"
  by code_simp

lemma freshFiles_groupable: "groupable freshFiles"
  by code_simp

lemma mixedCaseFiles_run:
  "applyMetadata localeCompare exampleState exampleCandidate mixedCaseFiles
     = Inr [videoResult exampleState exampleCandidate 2 (mixedCaseFiles ! 0),
            videoResult exampleState exampleCandidate 1 (mixedCaseFiles ! 1)]"
  by code_simp

lemma bracketedSubtitle_run:
  "applyMetadata localeCompare hintedState (candidate ''Show'' None) [bracketedSubtitle]
     = Inr [subtitleResult hintedState (candidate ''Show'' None) ''chs'' 1 bracketedSubtitle]"
  by code_simp

lemma bracketedSubtitle_facts:
  "0 < length [bracketedSubtitle]"
  "is_video ([bracketedSubtitle] ! 0) \<or> is_subtitle ([bracketedSubtitle] ! 0)"
  "parsed ([bracketedSubtitle] ! 0) = None"
  "name ([bracketedSubtitle] ! 0) = ''[Grp] Show S02E01.chs.ass''"
  "is_subtitle ([bracketedSubtitle] ! 0)"
  by (simp_all add: bracketedSubtitle_def fileObject_def)

lemma bracketedSubtitle_fallback:
  "matchSeason ''[Grp] Show S02E01.chs.ass'' = Some ''02''"
  "matchGroup ''[Grp] Show S02E01.chs.ass'' = Some ''Grp''"
  "new_name (subtitleResult hintedState (candidate ''Show'' None) ''chs'' 1 bracketedSubtitle)
     = Some ''Show S2 [Grp].chs.ass''"
  "new_name (videoResult hintedState (candidate ''Show'' None) 1 hintedFile) = Some ''Show S1 [].mkv''"
  by code_simp+

lemma bracketedSubtitle_groupable: "groupable [bracketedSubtitle]"
  by code_simp


lemma plan_instance:
  assumes "\<exists>out. r = Inr out \<and> P out" and "r = Inr v"
  shows "P v"
  using assms by auto

section \<open>The plan of a file\<close>

text \<open>The facts behind the claims about a run that returns.\<close>

lemma replanning_plan:
  assumes a: "applyMetadata lc st ad fs = Inr out"
    and b: "applyMetadata lc st' ad' fs = Inr out'"
  shows "applyMetadata lc st ad out' = Inr out"
proof -
  note s = sameNames_result [OF b]
  from applyMetadata_local [OF s(1) a] obtain out2 where
    r: "applyMetadata lc st ad out' = Inr out2"
    and c: "\<And>i. i < length fs \<Longrightarrow> parsed (fs ! i) = parsed (out' ! i)
              \<Longrightarrow> file_type (fs ! i) = file_type (out' ! i) \<Longrightarrow>
              (if is_video (fs ! i) \<or> is_subtitle (fs ! i)
               then out2 ! i = (out' ! i)\<lparr>metadata := metadata (out ! i), new_name := new_name (out ! i)\<rparr>
               else out2 ! i = out' ! i)"
    by blast
  have "out2 = out"
  proof (rule nth_equalityI)
    show "length out2 = length out"
      using applyMetadata_length [OF r] applyMetadata_length [OF a] applyMetadata_length [OF b]
      by simp
  next
    fix i assume "i < length out2"
    then have i: "i < length fs"
      using applyMetadata_length [OF r] applyMetadata_length [OF b] by simp
    note ci = c [OF i] s(2) [OF i]
    show "out2 ! i = out ! i"
    proof (cases "is_video (fs ! i) \<or> is_subtitle (fs ! i)")
      case True
      from applyMetadata_written [OF a i True] obtain m n where
        o: "out ! i = (fs ! i)\<lparr>metadata := Some (makeAnimeInfo ad m (snd (techInfo (fs ! i)))), new_name := Some n\<rparr>"
        by blast
      from applyMetadata_written [OF b i True] obtain m' n' where
        o': "out' ! i = (fs ! i)\<lparr>metadata := Some (makeAnimeInfo ad' m' (snd (techInfo (fs ! i)))), new_name := Some n'\<rparr>"
        by blast
      from ci True have "out2 ! i = (out' ! i)\<lparr>metadata := metadata (out ! i), new_name := new_name (out ! i)\<rparr>"
        by simp
      then show ?thesis by (simp add: o o')
    next
      case False
      with ci have "out2 ! i = out' ! i" by simp
      also have "\<dots> = fs ! i" using applyMetadata_other [OF b i] False by simp
      also have "\<dots> = out ! i" using applyMetadata_other [OF a i] False by simp
      finally show ?thesis .
    qed
  qed
  with r show ?thesis by simp
qed


lemma subtitle_plan:
  assumes "applyMetadata lc st ad fs = Inr out" and "i < length fs" and "is_subtitle (fs ! i)"
  shows "(\<exists>p < length (sortedPartition lc fs (groupKey (extractSubtitleSuffix (name (fs ! i))))).
            sortedPartition lc fs (groupKey (extractSubtitleSuffix (name (fs ! i)))) ! p
              = (fs ! i, i, extractSubtitleSuffix (name (fs ! i)))
            \<and> out ! i = subtitleResult st ad (groupKey (extractSubtitleSuffix (name (fs ! i)))) (p + 1) (fs ! i)
            \<and> map_option episode (metadata (out ! i)) = Some (Some (int p + 1)))
         \<and> (\<forall>k. set (sortedPartition lc fs k) = {e \<in> set (subtitleFiles fs). entryKey e = k}
                \<and> distinct (map (\<lambda>e. fst (snd e)) (sortedPartition lc fs k)))
         \<and> (consistentComparator lc \<longrightarrow>
              (\<forall>k. sorted_wrt (\<lambda>a b. lc (name (fst a)) (name (fst b)) \<le> 0) (sortedPartition lc fs k)))
         \<and> (lc ''X-01.mkv'' ''X-02.mkv'' < 0 \<longrightarrow>
              (\<exists>planned. applyMetadata lc exampleState exampleCandidate exampleFiles = Inr planned
                 \<and> map new_name planned
                     = [Some ''Example - 01.mkv'', Some ''Example - 02.mkv'', Some ''Example - 01.chs.ass'']))"
proof (intro conjI impI allI)
  let ?k = "groupKey (extractSubtitleSuffix (name (fs ! i)))"
  from subtitle_has_entry [OF assms(2,3), of lc] obtain p where
    p: "p < length (sortedPartition lc fs ?k)"
       "sortedPartition lc fs ?k ! p = (fs ! i, i, extractSubtitleSuffix (name (fs ! i)))" by blast
  then have "out ! i = subtitleResult st ad ?k (p + 1) (fs ! i)"
    by (rule applyMetadata_subtitle [OF assms(1)])
  moreover from this have "map_option episode (metadata (out ! i)) = Some (Some (int p + 1))"
    by (simp add: subtitleResult_def makeAnimeInfo_def)
  ultimately show "\<exists>p < length (sortedPartition lc fs ?k).
            sortedPartition lc fs ?k ! p = (fs ! i, i, extractSubtitleSuffix (name (fs ! i)))
            \<and> out ! i = subtitleResult st ad ?k (p + 1) (fs ! i)
            \<and> map_option episode (metadata (out ! i)) = Some (Some (int p + 1))"
    using p by blast
next
  fix k
  show "set (sortedPartition lc fs k) = {e \<in> set (subtitleFiles fs). entryKey e = k}"
    by (auto simp: sortedPartition_set)
next
  fix k
  show "distinct (map (\<lambda>e. fst (snd e)) (sortedPartition lc fs k))"
    by (rule sortedPartition_distinct)
next
  fix k
  assume c: "consistentComparator lc"
  show "sorted_wrt (\<lambda>a b. lc (name (fst a)) (name (fst b)) \<le> 0) (sortedPartition lc fs k)"
    unfolding sortedPartition_def
  proof (rule sorted_sortBy)
    fix a b :: subtitleEntry
    from c show "lc (name (fst a)) (name (fst b)) \<le> 0 \<or> lc (name (fst b)) (name (fst a)) \<le> 0"
      unfolding consistentComparator_def by blast
  next
    fix a b d :: subtitleEntry
    assume "lc (name (fst a)) (name (fst b)) \<le> 0" "lc (name (fst b)) (name (fst d)) \<le> 0"
    with c show "lc (name (fst a)) (name (fst d)) \<le> 0"
      unfolding consistentComparator_def by blast
  qed
next
  assume "lc ''X-01.mkv'' ''X-02.mkv'' < 0"
  then have "applyMetadata lc exampleState exampleCandidate exampleFiles = Inr examplePlanned"
    by (rule exampleFiles_run)
  then show "\<exists>planned. applyMetadata lc exampleState exampleCandidate exampleFiles = Inr planned
          \<and> map new_name planned
              = [Some ''Example - 01.mkv'', Some ''Example - 02.mkv'', Some ''Example - 01.chs.ass'']"
    by (intro exI [of _ examplePlanned] conjI examplePlanned_names)
qed

lemma season_group_plan:
  assumes "applyMetadata lc st ad fs = Inr out" and "i < length fs"
    and "is_video (fs ! i) \<or> is_subtitle (fs ! i)"
  shows "(let seasonNumber = (case parsed (fs ! i) of
                                Some h \<Rightarrow> ParsedFilename.season h
                              | None \<Rightarrow> map_option parseInt (matchSeason (name (fs ! i))));
              groupName = (case parsed (fs ! i) of
                             Some h \<Rightarrow> group' h
                           | None \<Rightarrow> matchGroup (name (fs ! i)))
          in techInfo (fs ! i) = (groupName, seasonNumber)
             \<and> map_option season (metadata (out ! i))
                 = Some (Some (case seasonNumber of None \<Rightarrow> 1 | Some n \<Rightarrow> if n = 0 then 1 else n))
             \<and> (\<not> is_subtitle (fs ! i) \<longrightarrow>
                  (\<exists>ep. new_name (out ! i)
                     = Some (addExtension
                              (fillTemplate (fileNameTemplate st) (makeAnimeInfo ad ep seasonNumber) ep
                                 seasonNumber groupName)
                              (file_type (fs ! i)))))
             \<and> (is_subtitle (fs ! i) \<longrightarrow>
                  (\<exists>ep. new_name (out ! i)
                     = Some (addExtension
                              (let newName = fillTemplate (fileNameTemplate st @ subtitleSuffix st)
                                               (makeAnimeInfo ad ep seasonNumber) ep seasonNumber groupName;
                                   suffix = groupKey (extractSubtitleSuffix (name (fs ! i)))
                               in if suffix \<noteq> [] \<and> suffix \<noteq> ''default''
                                  then replace newName ''{ext}'' (suffix @ ''.{ext}'')
                                  else newName)
                              (file_type (fs ! i))))))"
proof -
  have t: "techInfo (fs ! i)
           = (case parsed (fs ! i) of Some h \<Rightarrow> group' h | None \<Rightarrow> matchGroup (name (fs ! i)),
              case parsed (fs ! i) of Some h \<Rightarrow> ParsedFilename.season h
              | None \<Rightarrow> map_option parseInt (matchSeason (name (fs ! i))))"
    by (simp add: techInfo_def split: option.splits)
  from applyMetadata_written [OF assms] obtain m n where
    "out ! i = (fs ! i)\<lparr>metadata := Some (makeAnimeInfo ad m (snd (techInfo (fs ! i)))), new_name := Some n\<rparr>"
    by blast
  then have s: "map_option season (metadata (out ! i)) = Some (Some (orNumber (snd (techInfo (fs ! i))) 1))"
    by (simp add: makeAnimeInfo_def)
  have v: "\<exists>ep. new_name (out ! i) = Some (videoNewName st ad (fs ! i) ep)" if "\<not> is_subtitle (fs ! i)"
  proof -
    from that assms(3) have "is_video (fs ! i)" by simp
    from videoPass_video [OF assms(2) this, of lc] obtain pos where
      "pos < length (videoFiles lc fs)" "videoFiles lc fs ! pos = (fs ! i, i)" by blast
    with that have "out ! i = videoResult st ad (pos + 1) (fs ! i)"
      by (intro applyMetadata_video [OF assms(1)])
    then have "new_name (out ! i) = Some (videoNewName st ad (fs ! i) (pos + 1))"
      by (simp add: videoResult_def)
    then show ?thesis by blast
  qed
  have u: "\<exists>ep. new_name (out ! i)
             = Some (subtitleNewName st ad (groupKey (extractSubtitleSuffix (name (fs ! i)))) (fs ! i) ep)"
    if "is_subtitle (fs ! i)"
  proof -
    let ?k = "groupKey (extractSubtitleSuffix (name (fs ! i)))"
    from subtitle_has_entry [OF assms(2) that, of lc] obtain p where
      p: "p < length (sortedPartition lc fs ?k)"
         "sortedPartition lc fs ?k ! p = (fs ! i, i, extractSubtitleSuffix (name (fs ! i)))" by blast
    then have "out ! i = subtitleResult st ad ?k (p + 1) (fs ! i)"
      by (rule applyMetadata_subtitle [OF assms(1)])
    then have "new_name (out ! i) = Some (subtitleNewName st ad ?k (fs ! i) (p + 1))"
      by (simp add: subtitleResult_def)
    then show ?thesis by blast
  qed
  show ?thesis
    unfolding Let_def using s v u
    by (simp add: t orNumber_def videoNewName_def subtitleNewName_def Let_def split: option.splits)
qed

lemma parse_failure_plan:
  assumes d: "distinct (map path fs)" and k: "k < length fs"
    and np: "parsed (fs ! k) = None" and fail: "parse (name (fs ! k)) = None"
    and a: "applyMetadata lc st ad (parseFilenames parse fs) = Inr out"
  shows "parseFilenames parse fs ! k = fs ! k
         \<and> techInfo (parseFilenames parse fs ! k)
             = (matchGroup (name (fs ! k)), map_option parseInt (matchSeason (name (fs ! k))))
         \<and> (is_video (fs ! k) \<or> is_subtitle (fs ! k) \<longrightarrow>
              map_option season (metadata (out ! k))
                = Some (Some (orNumber (map_option parseInt (matchSeason (name (fs ! k)))) 1)))
         \<and> (\<forall>parse'. \<exists>out'. applyMetadata lc st ad (parseFilenames parse' fs) = Inr out'
                \<and> ((\<forall>n. n \<noteq> name (fs ! k) \<longrightarrow> parse' n = parse n) \<longrightarrow>
                     (\<forall>j < length fs. name (fs ! j) \<noteq> name (fs ! k) \<longrightarrow> out' ! j = out ! j)))"
proof (intro conjI impI allI)
  let ?gs = "parseFilenames parse fs"
  have l: "length ?gs = length fs" by (rule parseFilenames_length [OF d])
  show gk: "?gs ! k = fs ! k"
    by (simp add: parseFilenames_nth [OF d k] parseUpdate_def fail)
  show ti: "techInfo (?gs ! k)
        = (matchGroup (name (fs ! k)), map_option parseInt (matchSeason (name (fs ! k))))"
    by (simp add: gk techInfo_def np)
  {
    assume "is_video (fs ! k) \<or> is_subtitle (fs ! k)"
    then have "is_video (?gs ! k) \<or> is_subtitle (?gs ! k)" by (simp add: gk)
    moreover have "k < length ?gs" using k l by simp
    ultimately obtain m n where
      "out ! k = (?gs ! k)\<lparr>metadata := Some (makeAnimeInfo ad m (snd (techInfo (?gs ! k)))), new_name := Some n\<rparr>"
      using applyMetadata_written [OF a, of k] by blast
    then show "map_option season (metadata (out ! k))
                = Some (Some (orNumber (map_option parseInt (matchSeason (name (fs ! k)))) 1))"
      by (simp add: ti makeAnimeInfo_def)
  }
  fix parse'
  let ?hs = "parseFilenames parse' fs"
  have s: "sameNames ?gs ?hs"
    using parseFilenames_sameNames [OF d, of parse] parseFilenames_sameNames [OF d, of parse']
    by (blast intro: sameNames_sym sameNames_trans)
  from applyMetadata_local [OF s a] obtain out' where
    b: "applyMetadata lc st ad ?hs = Inr out'"
    and c: "\<And>i. i < length ?gs \<Longrightarrow> parsed (?gs ! i) = parsed (?hs ! i)
              \<Longrightarrow> file_type (?gs ! i) = file_type (?hs ! i) \<Longrightarrow>
              (if is_video (?gs ! i) \<or> is_subtitle (?gs ! i)
               then out' ! i = (?hs ! i)\<lparr>metadata := metadata (out ! i), new_name := new_name (out ! i)\<rparr>
               else out' ! i = ?hs ! i)"
    by blast
  have "out' ! j = out ! j"
    if agree: "\<forall>n. n \<noteq> name (fs ! k) \<longrightarrow> parse' n = parse n"
      and j: "j < length fs" and nj: "name (fs ! j) \<noteq> name (fs ! k)" for j
  proof -
    from agree nj have "parse' (name (fs ! j)) = parse (name (fs ! j))" by blast
    then have e: "?hs ! j = ?gs ! j"
      by (simp add: parseFilenames_nth [OF d j] parseUpdate_def)
    have jl: "j < length ?gs" using j l by simp
    from c [OF jl] e have c': "if is_video (?gs ! j) \<or> is_subtitle (?gs ! j)
               then out' ! j = (?gs ! j)\<lparr>metadata := metadata (out ! j), new_name := new_name (out ! j)\<rparr>
               else out' ! j = ?gs ! j" by simp
    show ?thesis
    proof (cases "is_video (?gs ! j) \<or> is_subtitle (?gs ! j)")
      case True
      from applyMetadata_written [OF a jl True] obtain m n where
        "out ! j = (?gs ! j)\<lparr>metadata := Some (makeAnimeInfo ad m (snd (techInfo (?gs ! j)))), new_name := Some n\<rparr>"
        by blast
      then have "(?gs ! j)\<lparr>metadata := metadata (out ! j), new_name := new_name (out ! j)\<rparr> = out ! j"
        by (rule written_fixed)
      with c' True show ?thesis by simp
    next
      case False
      then have "out ! j = ?gs ! j" using applyMetadata_other [OF a jl] by simp
      with c' False show ?thesis by simp
    qed
  qed
  with b show "\<exists>out'. applyMetadata lc st ad ?hs = Inr out'
                \<and> ((\<forall>n. n \<noteq> name (fs ! k) \<longrightarrow> parse' n = parse n) \<longrightarrow>
                     (\<forall>j < length fs. name (fs ! j) \<noteq> name (fs ! k) \<longrightarrow> out' ! j = out ! j))"
    by blast
qed

lemma other_plan:
  assumes "applyMetadata lc st ad fs = Inr out" and "i < length fs"
    and "\<not> is_video (fs ! i)" and "\<not> is_subtitle (fs ! i)"
  shows "length out = length fs \<and> out ! i = fs ! i"
  using assms applyMetadata_length applyMetadata_other by blast

section \<open>The claims\<close>

text \<open>
  C1. Planning is a function of its arguments, and it reads nothing that an earlier run
  wrote: the working set after a run with any template and candidate, planned again, is the
  working set that planning gives at once. With the same template and candidate the planned
  working set is a fixed point.
\<close>

theorem replanning_reproduces_plan:
  "filesAfter lc st ad (filesAfter lc st' ad' fs) = filesAfter lc st ad fs
   \<and> filesAfter lc st ad (filesAfter lc st ad fs) = filesAfter lc st ad fs
   \<and> (applyMetadata lc st ad fs = Inr out \<longrightarrow> applyMetadata lc st ad out = Inr out)"
proof -
  have g: "filesAfter lc st ad (filesAfter lc st' ad' fs) = filesAfter lc st ad fs" for st' ad'
  proof (cases "groupable fs")
    case True
    from groupable_returns [OF True] obtain out1 out2 where
      a: "applyMetadata lc st ad fs = Inr out1" and b: "applyMetadata lc st' ad' fs = Inr out2"
      by blast
    from replanning_plan [OF a b] a b show ?thesis by (simp add: filesAfter_def)
  next
    case False
    then show ?thesis by (simp add: filesAfter_def not_groupable_throws)
  qed
  have "applyMetadata lc st ad out = Inr out" if "applyMetadata lc st ad fs = Inr out"
    using that that by (rule replanning_plan)
  with g show ?thesis by blast
qed

theorem replanning_reproduces_plan_witness:
  "applyMetadata localeCompare exampleState exampleCandidate workingSet = Inr workingSetPlanned
   \<and> applyMetadata localeCompare exampleState exampleCandidate workingSetPlanned = Inr workingSetPlanned
   \<and> filesAfter localeCompare hintedState (candidate ''Show'' None) workingSet = workingSetOther
   \<and> filesAfter localeCompare exampleState exampleCandidate workingSetOther = workingSetPlanned"
proof -
  note t = replanning_reproduces_plan [of localeCompare exampleState exampleCandidate
      hintedState "candidate ''Show'' None" workingSet workingSetPlanned]
  from t workingSet_run
  have 1: "applyMetadata localeCompare exampleState exampleCandidate workingSetPlanned = Inr workingSetPlanned"
    by blast
  have 2: "filesAfter localeCompare hintedState (candidate ''Show'' None) workingSet = workingSetOther"
    by (simp add: filesAfter_def workingSet_other_run)
  from t have "filesAfter localeCompare exampleState exampleCandidate
      (filesAfter localeCompare hintedState (candidate ''Show'' None) workingSet)
    = filesAfter localeCompare exampleState exampleCandidate workingSet" by (rule conjunct1)
  then have 3: "filesAfter localeCompare exampleState exampleCandidate workingSetOther = workingSetPlanned"
    unfolding 2 by (simp add: filesAfter_def workingSet_run)
  from workingSet_run 1 2 3 show ?thesis by (intro conjI)
qed

text \<open>
  What the clean-up of the file name branch achieves. For every template and every value
  bag, the text that the replacements and the clean-up produce has no white space other than
  single spaces between other characters, and none at either end; the extension is added
  after that. Nothing removes parentheses: with the title \<open>X\<close> and no year,
  \<open>{title} ({year})\<close> resolves to \<open>X ()\<close>.
\<close>

lemma template_whitespace_cleanup:
  "singleSpaced (fillTemplate template info n s g)
   \<and> trimmed (fillTemplate template info n s g)
   \<and> (title info = ''X'' \<and> \<not> truthyNumber (year info) \<longrightarrow>
        fillTemplate ''{title} ({year})'' info n s g = ''X ()''
        \<and> addExtension (fillTemplate ''{title} ({year})'' info n s g) ''mkv'' = ''X ().mkv'')"
proof (intro conjI impI)
  show "singleSpaced (fillTemplate template info n s g)" "trimmed (fillTemplate template info n s g)"
    by (simp_all add: fillTemplate_clean)
next
  assume x: "title info = ''X'' \<and> \<not> truthyNumber (year info)"
  have a: "replace ''{title} ({year})'' ''{title}'' ''X'' = ''X ({year})''"
    by code_simp
  have b: "replace ''X ({year})'' ''{title_romaji}'' r = ''X ({year})''"
          "replace ''X ({year})'' ''{title_english}'' r = ''X ({year})''"
          "replace ''X ({year})'' ''{episode}'' r = ''X ({year})''"
          "replace ''X ({year})'' ''{episode:02}'' r = ''X ({year})''"
          "replace ''X ({year})'' ''{episode:03}'' r = ''X ({year})''"
          "replace ''X ({year})'' ''{season}'' r = ''X ({year})''" for r
    by (simp_all add: replace_def startsWith_def)
  have c: "replace ''X ({year})'' ''{year}'' [] = ''X ()''" by code_simp
  have e: "replace ''X ()'' ''{group}'' r = ''X ()''" for r
    by (simp add: replace_def startsWith_def)
  have f: "trim (collapseWhitespace ''X ()'') = ''X ()''" by code_simp
  from x have x1: "title info = ''X''" and x2: "truthyNumber (year info) = False" by simp_all
  show r: "fillTemplate ''{title} ({year})'' info n s g = ''X ()''"
    unfolding fillTemplate_def Let_def
    by (simp only: x1 x2 a b c e f if_cancel if_False)
  show "addExtension (fillTemplate ''{title} ({year})'' info n s g) ''mkv'' = ''X ().mkv''"
    unfolding r by code_simp
qed

text \<open>
  C2. The file name branch replaces the placeholder of an absent year by the empty string
  and then removes white space only. With the template \<open>{title} ({year})\<close>, the title \<open>X\<close>
  and no year the result is \<open>X ()\<close>, not \<open>X\<close>, and the name of an \<open>mkv\<close> file is
  \<open>X ().mkv\<close>. The folder branch of \<open>processFiles\<close> removes the parenthesised fragment:
  for the same template and the same candidate the folder is \<open>X\<close>.
\<close>

theorem file_name_keeps_empty_parentheses:
  "year noYearInfo = None
   \<and> title noYearInfo = ''X''
   \<and> fillTemplate ''{title} ({year})'' noYearInfo 1 None None = ''X ()''
   \<and> fillTemplate ''{title} ({year})'' noYearInfo 1 None None \<noteq> ''X''
   \<and> videoNewName (namingState ''{title} ({year})'') (candidate ''X'' None)
        (fileObject ''a.mkv'' ''mkv'' True False) 1 = ''X ().mkv''
   \<and> animeFolder ((namingState [])\<lparr>folderTemplate := ''{title} ({year})''\<rparr>) noYearInfo = ''X''"
  by code_simp

text \<open>
  C3, as stated, fails for the season: \<open>{season}\<close> with season 1 resolves to \<open>1\<close>, not to
  \<open>01\<close>.
\<close>

theorem bare_season_counterexample:
  "fillTemplate ''{season}'' noYearInfo 5 (Some 1) None = ''1''
   \<and> fillTemplate ''{season}'' noYearInfo 5 (Some 1) None \<noteq> ''01''
   \<and> videoNewName (namingState ''{season}'') (candidate ''X'' None)
        ((fileObject ''a.mkv'' ''mkv'' True False)\<lparr>parsed := Some (hint ''X'' (Some 1) None)\<rparr>) 5
      = ''1.mkv''"
  by code_simp

text \<open>
  C3, amended. \<open>{episode}\<close> and \<open>{episode:02}\<close> resolve to the episode number padded with
  zeros to width 2, \<open>{episode:03}\<close> to width 3; \<open>{season}\<close> resolves to the decimal form of
  the season number without padding, and to \<open>1\<close> when the season is absent or zero.
\<close>

theorem numeric_placeholder_widths:
  "fillTemplate ''{episode}'' info n s g = padStart 2 CHR ''0'' (natToString n)
   \<and> fillTemplate ''{episode:02}'' info n s g = padStart 2 CHR ''0'' (natToString n)
   \<and> fillTemplate ''{episode:03}'' info n s g = padStart 3 CHR ''0'' (natToString n)
   \<and> fillTemplate ''{season}'' info n s g = (if truthyNumber s then toString (the s) else ''1'')
   \<and> padStart 2 CHR ''0'' (natToString 5) = ''05''
   \<and> padStart 3 CHR ''0'' (natToString 5) = ''005''
   \<and> padStart 2 CHR ''0'' (natToString 123) = ''123''
   \<and> toString 1 = ''1''"
proof (intro conjI)
  show "padStart 2 CHR ''0'' (natToString 5) = ''05''" by code_simp
  show "padStart 3 CHR ''0'' (natToString 5) = ''005''" by code_simp
  show "padStart 2 CHR ''0'' (natToString 123) = ''123''" by code_simp
  show "toString 1 = ''1''" by code_simp
qed (rule fill_episode fill_episode_02 fill_episode_03 fill_season)+

text \<open>
  C4, as stated, fails when the second-to-last segment is empty: \<open>Show..ass\<close> has three
  segments, the second-to-last is the empty string, and the key is \<open>default\<close>.
\<close>

theorem empty_segment_counterexample:
  "length (split CHR ''.'' ''Show..ass'') = 3
   \<and> split CHR ''.'' ''Show..ass'' ! (length (split CHR ''.'' ''Show..ass'') - 2) = []
   \<and> groupKey (extractSubtitleSuffix ''Show..ass'') = ''default''"
  by code_simp

text \<open>
  C4, amended. The key of a file name is its second-to-last segment when the name has at
  least three segments and that segment is not empty, and \<open>default\<close> otherwise. So a name
  that ends with \<open>.seg.ext\<close> has the key \<open>seg\<close>, or \<open>default\<close> for an empty \<open>seg\<close>, and a
  name with at most one dot has the key \<open>default\<close>.
\<close>

theorem subtitle_group_key:
  "groupKey (extractSubtitleSuffix filename)
     = (let parts = split CHR ''.'' filename
        in if 3 \<le> length parts \<and> parts ! (length parts - 2) \<noteq> []
           then parts ! (length parts - 2) else ''default'')
   \<and> (CHR ''.'' \<notin> set seg \<and> CHR ''.'' \<notin> set ext \<longrightarrow>
        groupKey (extractSubtitleSuffix (pre @ CHR ''.'' # seg @ CHR ''.'' # ext))
          = (if seg = [] then ''default'' else seg))
   \<and> (CHR ''.'' \<notin> set pre \<and> CHR ''.'' \<notin> set ext \<longrightarrow>
        groupKey (extractSubtitleSuffix (pre @ CHR ''.'' # ext)) = ''default''
        \<and> groupKey (extractSubtitleSuffix pre) = ''default'')
   \<and> groupKey (extractSubtitleSuffix ''Show.ass'') = ''default''
   \<and> groupKey (extractSubtitleSuffix ''Show.chs.ass'') = ''chs''
   \<and> groupKey (extractSubtitleSuffix ''Show.chs.hi.ass'') = ''hi''"
proof (intro conjI impI)
  show "groupKey (extractSubtitleSuffix filename)
     = (let parts = split CHR ''.'' filename
        in if 3 \<le> length parts \<and> parts ! (length parts - 2) \<noteq> []
           then parts ! (length parts - 2) else ''default'')"
    by (simp add: groupKey_def extractSubtitleSuffix_def Let_def)
next
  assume "CHR ''.'' \<notin> set seg \<and> CHR ''.'' \<notin> set ext"
  then show "groupKey (extractSubtitleSuffix (pre @ CHR ''.'' # seg @ CHR ''.'' # ext))
          = (if seg = [] then ''default'' else seg)"
    by (simp add: extractSubtitleSuffix_segments groupKey_def)
next
  assume n: "CHR ''.'' \<notin> set pre \<and> CHR ''.'' \<notin> set ext"
  then have "split CHR ''.'' (pre @ CHR ''.'' # ext) = [pre, ext]"
    by (simp add: split_append split_no_separator)
  then show "groupKey (extractSubtitleSuffix (pre @ CHR ''.'' # ext)) = ''default''"
    by (simp add: extractSubtitleSuffix_def groupKey_def)
  from n show "groupKey (extractSubtitleSuffix pre) = ''default''"
    by (simp add: extractSubtitleSuffix_def groupKey_def split_no_separator)
next
  show "groupKey (extractSubtitleSuffix ''Show.ass'') = ''default''" by code_simp
  show "groupKey (extractSubtitleSuffix ''Show.chs.ass'') = ''chs''" by code_simp
  show "groupKey (extractSubtitleSuffix ''Show.chs.hi.ass'') = ''hi''" by code_simp
qed

theorem subtitle_group_key_witness:
  "CHR ''.'' \<notin> set ''chs'' \<and> CHR ''.'' \<notin> set ''ass''
   \<and> groupKey (extractSubtitleSuffix (''Show'' @ CHR ''.'' # ''chs'' @ CHR ''.'' # ''ass''))
       = (if ''chs'' = [] then ''default'' else ''chs'')
   \<and> CHR ''.'' \<notin> set ''Show''
   \<and> groupKey (extractSubtitleSuffix (''Show'' @ CHR ''.'' # ''ass'')) = ''default''"
  using subtitle_group_key [of "''Show.chs.ass''" "''chs''" "''ass''" "''Show''"] no_dot
  by blast

text \<open>A working set without subtitles, as a list of video files is, has no key at all.\<close>

lemma no_subtitles_groupable: "list_all (\<lambda>f. \<not> is_subtitle f) fs \<Longrightarrow> groupable fs"
  by (simp add: groupable_def list_all_iff)




text \<open>
  The numbering of the subtitles. On a working set on which \<open>applyMetadata\<close> returns, a
  subtitle has a place in the sorted list of the subtitles that share its key, and its
  episode number is that place counted from 1. The list of a key holds exactly the subtitles
  with that key, each once, sorted by name. With the default subtitle suffix \<open>.chs\<close> and
  a comparator that puts \<open>X-01.mkv\<close> before \<open>X-02.mkv\<close>, the example files get the names
  \<open>Example - 01.mkv\<close>, \<open>Example - 02.mkv\<close> and \<open>Example - 01.chs.ass\<close>.
\<close>

lemma subtitle_episodes_within_groups:
  assumes "groupable fs" and "i < length fs" and "is_subtitle (fs ! i)"
  shows "\<exists>out. applyMetadata lc st ad fs = Inr out \<and>
         (\<exists>p < length (sortedPartition lc fs (groupKey (extractSubtitleSuffix (name (fs ! i))))).
            sortedPartition lc fs (groupKey (extractSubtitleSuffix (name (fs ! i)))) ! p
              = (fs ! i, i, extractSubtitleSuffix (name (fs ! i)))
            \<and> out ! i = subtitleResult st ad (groupKey (extractSubtitleSuffix (name (fs ! i)))) (p + 1) (fs ! i)
            \<and> map_option episode (metadata (out ! i)) = Some (Some (int p + 1)))
         \<and> (\<forall>k. set (sortedPartition lc fs k) = {e \<in> set (subtitleFiles fs). entryKey e = k}
                \<and> distinct (map (\<lambda>e. fst (snd e)) (sortedPartition lc fs k)))
         \<and> (consistentComparator lc \<longrightarrow>
              (\<forall>k. sorted_wrt (\<lambda>a b. lc (name (fst a)) (name (fst b)) \<le> 0) (sortedPartition lc fs k)))
         \<and> (lc ''X-01.mkv'' ''X-02.mkv'' < 0 \<longrightarrow>
              (\<exists>planned. applyMetadata lc exampleState exampleCandidate exampleFiles = Inr planned
                 \<and> map new_name planned
                     = [Some ''Example - 01.mkv'', Some ''Example - 02.mkv'', Some ''Example - 01.chs.ass'']))"
proof -
  from groupable_returns [OF assms(1)] obtain out where a: "applyMetadata lc st ad fs = Inr out"
    by blast
  note c = subtitle_plan [OF a assms(2,3)]
  from a c have f: "applyMetadata lc st ad fs = Inr out \<and>
         (\<exists>p < length (sortedPartition lc fs (groupKey (extractSubtitleSuffix (name (fs ! i))))).
            sortedPartition lc fs (groupKey (extractSubtitleSuffix (name (fs ! i)))) ! p
              = (fs ! i, i, extractSubtitleSuffix (name (fs ! i)))
            \<and> out ! i = subtitleResult st ad (groupKey (extractSubtitleSuffix (name (fs ! i)))) (p + 1) (fs ! i)
            \<and> map_option episode (metadata (out ! i)) = Some (Some (int p + 1)))
         \<and> (\<forall>k. set (sortedPartition lc fs k) = {e \<in> set (subtitleFiles fs). entryKey e = k}
                \<and> distinct (map (\<lambda>e. fst (snd e)) (sortedPartition lc fs k)))
         \<and> (consistentComparator lc \<longrightarrow>
              (\<forall>k. sorted_wrt (\<lambda>a b. lc (name (fst a)) (name (fst b)) \<le> 0) (sortedPartition lc fs k)))
         \<and> (lc ''X-01.mkv'' ''X-02.mkv'' < 0 \<longrightarrow>
              (\<exists>planned. applyMetadata lc exampleState exampleCandidate exampleFiles = Inr planned
                 \<and> map new_name planned
                     = [Some ''Example - 01.mkv'', Some ''Example - 02.mkv'', Some ''Example - 01.chs.ass'']))"
    by (rule conjI)
  show ?thesis by (rule exI [of _ out]) (rule f)
qed

lemma subtitle_episodes_example:
  "groupable exampleFiles \<and> 2 < length exampleFiles \<and> is_subtitle (exampleFiles ! 2)
   \<and> applyMetadata localeCompare exampleState exampleCandidate exampleFiles = Inr examplePlanned
   \<and> consistentComparator localeCompare
   \<and> localeCompare ''X-01.mkv'' ''X-02.mkv'' < 0
   \<and> sorted_wrt (\<lambda>a b. localeCompare (name (fst a)) (name (fst b)) \<le> 0)
        (sortedPartition localeCompare exampleFiles ''chs'')
   \<and> map_option episode (metadata (examplePlanned ! 2)) = Some (Some 1)
   \<and> map new_name examplePlanned
       = [Some ''Example - 01.mkv'', Some ''Example - 02.mkv'', Some ''Example - 01.chs.ass'']"
proof -
  have r: "applyMetadata localeCompare exampleState exampleCandidate exampleFiles = Inr examplePlanned"
    using localeCompare_example by (rule exampleFiles_run)
  have l: "2 < length exampleFiles" by (simp add: exampleFiles_facts)
  note t = plan_instance [OF subtitle_episodes_within_groups [OF exampleFiles_groupable l
      exampleFiles_facts(4), of localeCompare exampleState exampleCandidate] r]
  from t consistent_localeCompare
  have s: "sorted_wrt (\<lambda>a b. localeCompare (name (fst a)) (name (fst b)) \<le> 0)
        (sortedPartition localeCompare exampleFiles ''chs'')" by blast
  from exampleFiles_groupable l exampleFiles_facts(4) r consistent_localeCompare
    localeCompare_example s examplePlanned_subtitle(1) examplePlanned_names
  show ?thesis by (intro conjI)
qed

text \<open>
  C6. The groups are kept in an object created as \<open>{}\<close>, which inherits the properties of
  \<open>Object.prototype\<close>. For a subtitle whose key is the name of such a property, as
  \<open>X.constructor.ass\<close> with the key \<open>constructor\<close>, the test \<open>!groups[suffix]\<close> finds the
  inherited value, no list is created, and \<open>push\<close> is not a function of that value: the
  grouping throws a \<open>TypeError\<close> before the first write, and no file of the working set,
  video or subtitle, gets an episode number or a name.
\<close>

theorem inherited_key_aborts_planning:
  "is_subtitle (inheritedKeyFiles ! 1)
   \<and> name (inheritedKeyFiles ! 1) = ''X.constructor.ass''
   \<and> groupKey (extractSubtitleSuffix ''X.constructor.ass'') = ''constructor''
   \<and> reduceGroups [] (subtitleFiles inheritedKeyFiles) = Inl TypeError
   \<and> applyMetadata localeCompare exampleState exampleCandidate inheritedKeyFiles = Inl TypeError
   \<and> filesAfter localeCompare exampleState exampleCandidate inheritedKeyFiles = inheritedKeyFiles
   \<and> map metadata (filesAfter localeCompare exampleState exampleCandidate inheritedKeyFiles)
       = [None, None]
   \<and> map new_name (filesAfter localeCompare exampleState exampleCandidate inheritedKeyFiles)
       = [None, None]"
  by code_simp

text \<open>
  C7, as stated, fails for a file whose parse result lacks the season or the group: the
  file name is not scanned then. The video \<open>[Grp] Show S02E01.mkv\<close> with a parse result
  without season and group gets the season 1 and no group, where the policy of the
  specification gives the season 2 and the group \<open>Grp\<close>.
\<close>

theorem season_policy_counterexample:
  "applyMetadata localeCompare hintedState (candidate ''Show'' None) [hintedFile]
     = Inr [videoResult hintedState (candidate ''Show'' None) 1 hintedFile]
   \<and> map_option season (metadata (videoResult hintedState (candidate ''Show'' None) 1 hintedFile))
       = Some (Some 1)
   \<and> specSeason hintedFile = 2
   \<and> new_name (videoResult hintedState (candidate ''Show'' None) 1 hintedFile)
       = Some ''Show S1 [].mkv''
   \<and> specGroup hintedFile = Some ''Grp''"
  by code_simp

text \<open>
  C7, amended. For a file with a parse result, the season is the season of the parse result
  when that is a number other than zero and 1 otherwise, and the group is the group of the
  parse result; the file name is not scanned. For a file without a parse result, the season
  is the number after the first \<open>S\<close> or \<open>s\<close> that digits follow, when there is one and it is
  not zero, and 1 otherwise, and the group is the text between the first \<open>[\<close> that a
  character other than \<open>]\<close> follows and the next \<open>]\<close>, or absent. This season is stored
  with the file, and season and group go into the name of a video and of a subtitle alike.
\<close>

theorem season_and_group_policy:
  assumes "groupable fs" and "i < length fs" and "is_video (fs ! i) \<or> is_subtitle (fs ! i)"
  shows "\<exists>out. applyMetadata lc st ad fs = Inr out \<and>
         (let seasonNumber = (case parsed (fs ! i) of
                                Some h \<Rightarrow> ParsedFilename.season h
                              | None \<Rightarrow> map_option parseInt (matchSeason (name (fs ! i))));
              groupName = (case parsed (fs ! i) of
                             Some h \<Rightarrow> group' h
                           | None \<Rightarrow> matchGroup (name (fs ! i)))
          in techInfo (fs ! i) = (groupName, seasonNumber)
             \<and> map_option season (metadata (out ! i))
                 = Some (Some (case seasonNumber of None \<Rightarrow> 1 | Some n \<Rightarrow> if n = 0 then 1 else n))
             \<and> (\<not> is_subtitle (fs ! i) \<longrightarrow>
                  (\<exists>ep. new_name (out ! i)
                     = Some (addExtension
                              (fillTemplate (fileNameTemplate st) (makeAnimeInfo ad ep seasonNumber) ep
                                 seasonNumber groupName)
                              (file_type (fs ! i)))))
             \<and> (is_subtitle (fs ! i) \<longrightarrow>
                  (\<exists>ep. new_name (out ! i)
                     = Some (addExtension
                              (let newName = fillTemplate (fileNameTemplate st @ subtitleSuffix st)
                                               (makeAnimeInfo ad ep seasonNumber) ep seasonNumber groupName;
                                   suffix = groupKey (extractSubtitleSuffix (name (fs ! i)))
                               in if suffix \<noteq> [] \<and> suffix \<noteq> ''default''
                                  then replace newName ''{ext}'' (suffix @ ''.{ext}'')
                                  else newName)
                              (file_type (fs ! i))))))"
proof -
  from groupable_returns [OF assms(1)] obtain out where a: "applyMetadata lc st ad fs = Inr out"
    by blast
  note c = season_group_plan [OF a assms(2,3)]
  from a c have f: "applyMetadata lc st ad fs = Inr out \<and>
         (let seasonNumber = (case parsed (fs ! i) of
                                Some h \<Rightarrow> ParsedFilename.season h
                              | None \<Rightarrow> map_option parseInt (matchSeason (name (fs ! i))));
              groupName = (case parsed (fs ! i) of
                             Some h \<Rightarrow> group' h
                           | None \<Rightarrow> matchGroup (name (fs ! i)))
          in techInfo (fs ! i) = (groupName, seasonNumber)
             \<and> map_option season (metadata (out ! i))
                 = Some (Some (case seasonNumber of None \<Rightarrow> 1 | Some n \<Rightarrow> if n = 0 then 1 else n))
             \<and> (\<not> is_subtitle (fs ! i) \<longrightarrow>
                  (\<exists>ep. new_name (out ! i)
                     = Some (addExtension
                              (fillTemplate (fileNameTemplate st) (makeAnimeInfo ad ep seasonNumber) ep
                                 seasonNumber groupName)
                              (file_type (fs ! i)))))
             \<and> (is_subtitle (fs ! i) \<longrightarrow>
                  (\<exists>ep. new_name (out ! i)
                     = Some (addExtension
                              (let newName = fillTemplate (fileNameTemplate st @ subtitleSuffix st)
                                               (makeAnimeInfo ad ep seasonNumber) ep seasonNumber groupName;
                                   suffix = groupKey (extractSubtitleSuffix (name (fs ! i)))
                               in if suffix \<noteq> [] \<and> suffix \<noteq> ''default''
                                  then replace newName ''{ext}'' (suffix @ ''.{ext}'')
                                  else newName)
                              (file_type (fs ! i))))))"
    by (rule conjI)
  show ?thesis by (rule exI [of _ out]) (rule f)
qed

theorem season_and_group_policy_witness:
  "groupable [hintedFile] \<and> 0 < length [hintedFile]
   \<and> (is_video ([hintedFile] ! 0) \<or> is_subtitle ([hintedFile] ! 0))
   \<and> applyMetadata localeCompare hintedState (candidate ''Show'' None) [hintedFile]
       = Inr [videoResult hintedState (candidate ''Show'' None) 1 hintedFile]
   \<and> map_option season (metadata ([videoResult hintedState (candidate ''Show'' None) 1 hintedFile] ! 0))
       = Some (Some 1)
   \<and> new_name (videoResult hintedState (candidate ''Show'' None) 1 hintedFile) = Some ''Show S1 [].mkv''
   \<and> groupable [bracketedSubtitle] \<and> 0 < length [bracketedSubtitle]
   \<and> (is_video ([bracketedSubtitle] ! 0) \<or> is_subtitle ([bracketedSubtitle] ! 0))
   \<and> applyMetadata localeCompare hintedState (candidate ''Show'' None) [bracketedSubtitle]
       = Inr [subtitleResult hintedState (candidate ''Show'' None) ''chs'' 1 bracketedSubtitle]
   \<and> techInfo ([bracketedSubtitle] ! 0) = (Some ''Grp'', Some 2)
   \<and> map_option season
        (metadata ([subtitleResult hintedState (candidate ''Show'' None) ''chs'' 1 bracketedSubtitle] ! 0))
       = Some (Some 2)
   \<and> new_name (subtitleResult hintedState (candidate ''Show'' None) ''chs'' 1 bracketedSubtitle)
       = Some ''Show S2 [Grp].chs.ass''"
proof -
  note t = plan_instance [OF season_and_group_policy [OF hintedFile_groupable hintedFile_facts(1,2),
      of localeCompare hintedState "candidate ''Show'' None"] hintedFile_run]
  from t have v: "map_option season (metadata ([videoResult hintedState (candidate ''Show'' None) 1 hintedFile] ! 0))
       = Some (Some 1)"
    unfolding Let_def hintedFile_facts(3) by (simp add: hintedFile_facts(4))
  note u = plan_instance [OF season_and_group_policy [OF bracketedSubtitle_groupable
      bracketedSubtitle_facts(1,2), of localeCompare hintedState "candidate ''Show'' None"]
      bracketedSubtitle_run]
  from u have w: "techInfo ([bracketedSubtitle] ! 0) = (Some ''Grp'', Some 2)
      \<and> map_option season
        (metadata ([subtitleResult hintedState (candidate ''Show'' None) ''chs'' 1 bracketedSubtitle] ! 0))
       = Some (Some 2)"
    unfolding Let_def bracketedSubtitle_facts(3,4) option.case bracketedSubtitle_fallback(1,2) option.map
      freshFiles_fallback(2)
    by simp
  from w have w1: "techInfo ([bracketedSubtitle] ! 0) = (Some ''Grp'', Some 2)" by (rule conjunct1)
  from w have w2: "map_option season
        (metadata ([subtitleResult hintedState (candidate ''Show'' None) ''chs'' 1 bracketedSubtitle] ! 0))
       = Some (Some 2)" by (rule conjunct2)
  from hintedFile_groupable hintedFile_facts(1,2) hintedFile_run v bracketedSubtitle_fallback(4)
    bracketedSubtitle_groupable bracketedSubtitle_facts(1,2) bracketedSubtitle_run w1 w2
    bracketedSubtitle_fallback(3)
  show ?thesis by (intro conjI)
qed

text \<open>
  C8. The code strips the parenthesised fragment only. With the folder template
  \<open>{title_romaji} {year}\<close> and no year the folder is \<open>X {year}\<close>: the bare token stays,
  while the file name branch of \<open>applyMetadata\<close> replaces it by the empty string.
\<close>

theorem anime_folder_keeps_bare_year:
  "year noYearInfo = None
   \<and> animeFolder (namingState []) noYearInfo = ''X''
   \<and> animeFolder bareYearState noYearInfo = ''X {year}''
   \<and> fillTemplate ''{title_romaji} {year}'' noYearInfo 1 None None = ''X''"
  by code_simp

text \<open>
  C9. Let the paths of the files be distinct, and let the parser fail on the name of a file
  that has no parse result yet. Then \<open>parseFilenames\<close> leaves that file as it is, planning
  returns as it does without the failure, the season and group that \<open>applyMetadata\<close> uses
  for the file are the matches in its name, and the stored season follows from the match.
  Planning returns for every parser, and for a parser that differs on this name only, the
  planned files with another name are the same.
\<close>

theorem parse_failure_is_local:
  assumes "groupable fs" and "distinct (map path fs)" and "k < length fs"
    and "parsed (fs ! k) = None" and "parse (name (fs ! k)) = None"
  shows "\<exists>out. applyMetadata lc st ad (parseFilenames parse fs) = Inr out \<and>
         parseFilenames parse fs ! k = fs ! k
         \<and> techInfo (parseFilenames parse fs ! k)
             = (matchGroup (name (fs ! k)), map_option parseInt (matchSeason (name (fs ! k))))
         \<and> (is_video (fs ! k) \<or> is_subtitle (fs ! k) \<longrightarrow>
              map_option season (metadata (out ! k))
                = Some (Some (orNumber (map_option parseInt (matchSeason (name (fs ! k)))) 1)))
         \<and> (\<forall>parse'. \<exists>out'. applyMetadata lc st ad (parseFilenames parse' fs) = Inr out'
                \<and> ((\<forall>n. n \<noteq> name (fs ! k) \<longrightarrow> parse' n = parse n) \<longrightarrow>
                     (\<forall>j < length fs. name (fs ! j) \<noteq> name (fs ! k) \<longrightarrow> out' ! j = out ! j)))"
proof -
  from groupable_returns [OF assms(1)] obtain out0 where "applyMetadata lc st ad fs = Inr out0"
    by blast
  with applyMetadata_local [OF parseFilenames_sameNames [OF assms(2), of parse]]
  obtain out where a: "applyMetadata lc st ad (parseFilenames parse fs) = Inr out" by blast
  note c = parse_failure_plan [OF assms(2-5) a]
  from a c have f: "applyMetadata lc st ad (parseFilenames parse fs) = Inr out \<and>
         parseFilenames parse fs ! k = fs ! k
         \<and> techInfo (parseFilenames parse fs ! k)
             = (matchGroup (name (fs ! k)), map_option parseInt (matchSeason (name (fs ! k))))
         \<and> (is_video (fs ! k) \<or> is_subtitle (fs ! k) \<longrightarrow>
              map_option season (metadata (out ! k))
                = Some (Some (orNumber (map_option parseInt (matchSeason (name (fs ! k)))) 1)))
         \<and> (\<forall>parse'. \<exists>out'. applyMetadata lc st ad (parseFilenames parse' fs) = Inr out'
                \<and> ((\<forall>n. n \<noteq> name (fs ! k) \<longrightarrow> parse' n = parse n) \<longrightarrow>
                     (\<forall>j < length fs. name (fs ! j) \<noteq> name (fs ! k) \<longrightarrow> out' ! j = out ! j)))"
    by (rule conjI)
  show ?thesis by (rule exI [of _ out]) (rule f)
qed

theorem parse_failure_is_local_witness:
  "groupable freshFiles \<and> distinct (map path freshFiles) \<and> 0 < length freshFiles
   \<and> parsed (freshFiles ! 0) = None \<and> failingParse (name (freshFiles ! 0)) = None
   \<and> applyMetadata localeCompare hintedState (candidate ''Show'' None)
        (parseFilenames failingParse freshFiles) = Inr freshPlanned
   \<and> map_option season (metadata (freshPlanned ! 0)) = Some (Some 2)
   \<and> new_name (freshPlanned ! 0) = Some ''Show S2 [Grp].mkv''
   \<and> new_name (freshPlanned ! 1) = Some ''Show S3 [].mkv''"
proof -
  note t = plan_instance [OF parse_failure_is_local [where fs = freshFiles and k = 0
      and parse = failingParse and lc = localeCompare and st = hintedState
      and ad = "candidate ''Show'' None", OF freshFiles_groupable freshFiles_facts(1-4)]
      freshFiles_run]
  from t freshFiles_facts(5)
  have "map_option season (metadata (freshPlanned ! 0))
          = Some (Some (orNumber (map_option parseInt (matchSeason (name (freshFiles ! 0)))) 1))"
    by blast
  then have "map_option season (metadata (freshPlanned ! 0)) = Some (Some 2)"
    unfolding freshFiles_facts(6) freshFiles_fallback(1) option.map freshFiles_fallback(2)
    by (simp add: orNumber_def)
  with freshFiles_groupable freshFiles_facts(1-4) freshFiles_run freshFiles_fallback(4,5) show ?thesis
    by (intro conjI)
qed

text \<open>
  C10. A file that is neither a video nor a subtitle is in the working set after
  \<open>applyMetadata\<close> as it was before, with every field unchanged, and the working set keeps
  its length: no loop writes to its place when the call returns, and nothing is written
  when the call throws.
\<close>

theorem other_files_unchanged:
  assumes "i < length fs" and "\<not> is_video (fs ! i)" and "\<not> is_subtitle (fs ! i)"
  shows "length (filesAfter lc st ad fs) = length fs \<and> filesAfter lc st ad fs ! i = fs ! i
         \<and> (\<forall>out. applyMetadata lc st ad fs = Inr out \<longrightarrow> length out = length fs \<and> out ! i = fs ! i)"
proof -
  have r: "length out = length fs \<and> out ! i = fs ! i" if "applyMetadata lc st ad fs = Inr out" for out
    using that assms by (rule other_plan)
  then have "length (filesAfter lc st ad fs) = length fs \<and> filesAfter lc st ad fs ! i = fs ! i"
    by (cases "applyMetadata lc st ad fs") (simp_all add: filesAfter_def)
  with r show ?thesis by blast
qed

theorem other_files_unchanged_witness:
  "3 < length workingSet \<and> \<not> is_video (workingSet ! 3) \<and> \<not> is_subtitle (workingSet ! 3)
   \<and> applyMetadata localeCompare exampleState exampleCandidate workingSet = Inr workingSetPlanned
   \<and> length workingSetPlanned = length workingSet \<and> workingSetPlanned ! 3 = workingSet ! 3
   \<and> name (workingSet ! 3) = ''notes.txt''"
proof -
  have l: "3 < length workingSet" by (simp add: workingSet_facts)
  note t = other_files_unchanged [OF l workingSet_facts(7,8), of localeCompare exampleState exampleCandidate]
  from t workingSet_run
  have c: "length workingSetPlanned = length workingSet \<and> workingSetPlanned ! 3 = workingSet ! 3" by blast
  have n: "name (workingSet ! 3) = ''notes.txt''" by (simp add: workingSet_def fileObject_def)
  from l workingSet_facts(7,8) workingSet_run c n show ?thesis by (intro conjI) blast+
qed

end
